theory Spec2Isabelle
  imports Main
begin

section \<open>Strings of the engine\<close>

text \<open>
  The engine is written in TypeScript: its strings are sequences of UTF-16 code units and
  \<open>.length\<close> counts code units.  A code unit is a natural number here, so that the bullet
  U+2022 and the no-break space U+00A0 are single characters as in the source.  Tag and
  attribute names are compared with ASCII literals only; they are kept as \<open>string\<close>.
\<close>

type_synonym jstring = "nat list"

definition U :: "string \<Rightarrow> jstring" where
  "U s = map of_char s"

text \<open>The characters matched by \<open>\s\<close> and removed by \<open>trim()\<close> (ECMAScript WhiteSpace and
  LineTerminator).\<close>

definition isWhiteSpace :: "nat \<Rightarrow> bool" where
  "isWhiteSpace c \<longleftrightarrow>
     c = 9 \<or> c = 10 \<or> c = 11 \<or> c = 12 \<or> c = 13 \<or> c = 32 \<or> c = 160 \<or> c = 5760 \<or>
     (8192 \<le> c \<and> c \<le> 8202) \<or> c = 8232 \<or> c = 8233 \<or> c = 8239 \<or> c = 8287 \<or>
     c = 12288 \<or> c = 65279"

definition isNewline :: "nat \<Rightarrow> bool" where
  "isNewline c \<longleftrightarrow> c = 10 \<or> c = 13"

text \<open>\<open>s.replace(/[...]+/g, ' ')\<close>: every maximal run of characters of the class becomes one
  space.\<close>

function collapseRuns :: "(nat \<Rightarrow> bool) \<Rightarrow> jstring \<Rightarrow> jstring" where
  "collapseRuns P [] = []"
| "collapseRuns P (c # cs) =
     (if P c then 32 # collapseRuns P (dropWhile P cs) else c # collapseRuns P cs)"
  by pat_completeness auto
termination
  by (relation "measure (\<lambda>(P, s). length s)") (auto simp: length_dropWhile_le less_Suc_eq_le)

definition trimStart :: "jstring \<Rightarrow> jstring" where
  "trimStart s = dropWhile isWhiteSpace s"

definition trimEnd :: "jstring \<Rightarrow> jstring" where
  "trimEnd s = rev (dropWhile isWhiteSpace (rev s))"

definition trim :: "jstring \<Rightarrow> jstring" where
  "trim s = trimEnd (trimStart s)"

text \<open>\<open>toLowerCase\<close> on names.  A name is only ever compared with ASCII literals, and no
  character beyond ASCII that fits in a \<open>char\<close> lower-cases to an ASCII letter, so the
  ASCII letters are all that matters.\<close>

definition toLowerChar :: "char \<Rightarrow> char" where
  "toLowerChar c =
     (case map_of (zip ''ABCDEFGHIJKLMNOPQRSTUVWXYZ'' ''abcdefghijklmnopqrstuvwxyz'') c of
        None \<Rightarrow> c
      | Some l \<Rightarrow> l)"

definition toLowerCase :: "string \<Rightarrow> string" where
  "toLowerCase s = map toLowerChar s"

section \<open>Style classifier\<close>

text \<open>
  \<open>/font-weight\s*:\s*(bold|700|800|900)/i.test(style)\<close> and its two siblings.  The flag
  \<open>i\<close> (without \<open>u\<close>) lets an ASCII letter of the pattern match exactly its two ASCII
  cases.  \<open>\s*\<close> is greedy, and what follows it never starts with white space, so the
  match needs no backtracking.  \<open>test\<close> tries every start position.
\<close>

definition lowerCode :: "nat \<Rightarrow> nat" where
  "lowerCode c = (if 65 \<le> c \<and> c \<le> 90 then c + 32 else c)"

fun literalCI :: "jstring \<Rightarrow> jstring \<Rightarrow> jstring option" where
  "literalCI [] s = Some s"
| "literalCI (p # ps) [] = None"
| "literalCI (p # ps) (c # cs) = (if lowerCode c = p then literalCI ps cs else None)"

definition skipSpaces :: "jstring \<Rightarrow> jstring" where
  "skipSpaces s = dropWhile isWhiteSpace s"

definition declarationAt :: "jstring \<Rightarrow> jstring list \<Rightarrow> jstring \<Rightarrow> bool" where
  "declarationAt property vals s =
     (case literalCI property s of
        None \<Rightarrow> False
      | Some r1 \<Rightarrow>
          (case literalCI [58] (skipSpaces r1) of
             None \<Rightarrow> False
           | Some r2 \<Rightarrow> \<exists>v \<in> set vals. literalCI v (skipSpaces r2) \<noteq> None))"

fun regexTest :: "(jstring \<Rightarrow> bool) \<Rightarrow> jstring \<Rightarrow> bool" where
  "regexTest m [] = m []"
| "regexTest m (c # cs) = (m (c # cs) \<or> regexTest m cs)"

definition isBoldStyle :: "jstring \<Rightarrow> bool" where
  "isBoldStyle style =
     regexTest
       (declarationAt (U ''font-weight'') [U ''bold'', U ''700'', U ''800'', U ''900'']) style"

definition isItalicStyle :: "jstring \<Rightarrow> bool" where
  "isItalicStyle style = regexTest (declarationAt (U ''font-style'') [U ''italic'']) style"

definition isUnderlineStyle :: "jstring \<Rightarrow> bool" where
  "isUnderlineStyle style = regexTest (declarationAt (U ''text-decoration'') [U ''underline'']) style"

section \<open>Tag policy tables\<close>

definition IGNORE_TAGS :: "string list" where
  "IGNORE_TAGS =
     [''script'', ''style'', ''svg'', ''xml'', ''head'', ''meta'', ''link'', ''object'',
      ''iframe'', ''template'', ''noscript'', ''button'', ''input'', ''select'', ''textarea'']"

definition BLOCK_TAGS :: "string list" where
  "BLOCK_TAGS =
     [''div'', ''p'', ''h1'', ''h2'', ''h3'', ''h4'', ''h5'', ''h6'', ''article'', ''section'',
      ''nav'', ''aside'', ''header'', ''footer'', ''blockquote'', ''pre'', ''figure'', ''li'',
      ''tr'', ''ul'', ''ol'', ''table'']"

text \<open>The table of the first engine (lines 24-36).  A key that is absent, and a key that
  JavaScript would find on the object's prototype, both give a value equal to none of the
  tag strings the walker compares with: \<open>None\<close>.\<close>

definition BASE_TAG_MAP :: "string \<Rightarrow> string option" where
  "BASE_TAG_MAP = map_of
     [(''strong'', ''b''), (''b'', ''b''),
      (''em'', ''i''), (''i'', ''i''), (''cite'', ''i''), (''var'', ''i''),
      (''u'', ''u''), (''ins'', ''u''),
      (''sub'', ''sub''), (''sup'', ''sup''),
      (''br'', ''br''), (''hr'', ''br''),
      (''p'', ''p''), (''div'', ''p''), (''blockquote'', ''p''), (''pre'', ''p''),
      (''address'', ''p''), (''center'', ''p''),
      (''h1'', ''p''), (''h2'', ''p''), (''h3'', ''p''), (''h4'', ''p''), (''h5'', ''p''),
      (''h6'', ''p''),
      (''article'', ''p''), (''section'', ''p''), (''main'', ''p''), (''nav'', ''p''),
      (''aside'', ''p''), (''header'', ''p''), (''footer'', ''p''),
      (''ul'', ''ul''), (''ol'', ''ol''), (''li'', ''li''),
      (''dl'', ''p''), (''dd'', ''br''), (''dt'', ''b''),
      (''table'', ''p''), (''tr'', ''br''), (''td'', ''span''), (''th'', ''b'')]"

text \<open>\<open>/^h[1-6]$/.test(tagName)\<close>\<close>

definition isHeaderTag :: "string \<Rightarrow> bool" where
  "isHeaderTag t \<longleftrightarrow> t \<in> set [''h1'', ''h2'', ''h3'', ''h4'', ''h5'', ''h6'']"

section \<open>Trees\<close>

text \<open>
  The parsed input: text nodes, elements (tag name as the DOM reports it, attributes, ordered
  children) and every other kind of node (comments and the like).  The output tree is built
  from \<open>createTextNode\<close>, \<open>createElement\<close> and \<open>appendChild\<close>; an output element keeps an
  attribute list, which \<open>createElement\<close> leaves empty.
\<close>

datatype node =
    Text jstring
  | Element string "(string \<times> jstring) list" "node list"
  | Other

datatype onode =
    OText jstring
  | OElement string "(string \<times> jstring) list" "onode list"

text \<open>What a call of the walker returns: \<open>null\<close>, one node, or a document fragment.\<close>

datatype produced = Null | Node onode | Fragment "onode list"

text \<open>\<open>parent.appendChild(x)\<close> on the child list of \<open>parent\<close>: a fragment gives up its
  children.\<close>

fun appendChild :: "onode list \<Rightarrow> produced \<Rightarrow> onode list" where
  "appendChild kids Null = kids"
| "appendChild kids (Node n) = kids @ [n]"
| "appendChild kids (Fragment ns) = kids @ ns"

definition createElement :: "string \<Rightarrow> onode" where
  "createElement t = OElement t [] []"

definition wrap :: "produced \<Rightarrow> string \<Rightarrow> produced" where
  "wrap content t = Node (OElement t [] (appendChild [] content))"

definition getAttribute :: "(string \<times> jstring) list \<Rightarrow> string \<Rightarrow> jstring option" where
  "getAttribute attrs name = map_of attrs name"

record config =
  useParagraphs :: bool
  aggressiveWhitespace :: bool

text \<open>The two counters of a run, \<open>let tagsRemoved = 0; let attributesRemoved = 0\<close>; the
  statistics record of the result carries them together with the two lengths.\<close>

record counters =
  tagsRemoved :: nat
  attributesRemoved :: nat

record processingStats = counters +
  originalLength :: nat
  finalLength :: nat

section \<open>First engine: the walker (lines 68-166)\<close>

record conversionContext =
  insideListListItem :: bool

text \<open>Lines 126-132 (and 424-453 of the second engine): the visual wrappers, innermost
  first.\<close>

definition visualWrappers ::
  "string option \<Rightarrow> string \<Rightarrow> bool \<Rightarrow> bool \<Rightarrow> bool \<Rightarrow> bool \<Rightarrow> produced \<Rightarrow> produced"
where
  "visualWrappers targetTag tagName hasBold hasItalic hasUnderline isHeader fragment =
     (let result = fragment;
          result = (if targetTag = Some ''sub'' then wrap result ''sub'' else result);
          result = (if targetTag = Some ''sup'' then wrap result ''sup'' else result);
          result = (if targetTag = Some ''u'' \<or> hasUnderline then wrap result ''u''
                    else result);
          result = (if targetTag = Some ''i'' \<or> hasItalic then wrap result ''i''
                    else result);
          result = (if targetTag = Some ''b'' \<or> hasBold \<or> isHeader \<or> tagName = ''th''
                    then wrap result ''b'' else result)
      in result)"

text \<open>Lines 134-163: the block wrappers and the fallback.\<close>

definition blockWrapper :: "string option \<Rightarrow> conversionContext \<Rightarrow> produced \<Rightarrow> produced" where
  "blockWrapper targetTag ctx result =
     (if targetTag = Some ''p'' then
        (if insideListListItem ctx then result else wrap result ''p'')
      else if targetTag = Some ''br'' then Node (createElement ''br'')
      else if targetTag = Some ''ul'' then wrap result ''ul''
      else if targetTag = Some ''ol'' then wrap result ''ol''
      else if targetTag = Some ''li'' then wrap result ''li''
      else result)"

fun processNode :: "config \<Rightarrow> conversionContext \<Rightarrow> node \<Rightarrow> counters \<Rightarrow> produced \<times> counters"
  and processEach ::
    "config \<Rightarrow> conversionContext \<Rightarrow> node list \<Rightarrow> onode list \<Rightarrow> counters
       \<Rightarrow> onode list \<times> counters"
where
  "processNode cfg ctx (Text t) st =
     (let text = collapseRuns isNewline t;
          text = (if aggressiveWhitespace cfg then collapseRuns isWhiteSpace text else text)
      in if text = [] then (Null, st) else (Node (OText text), st))"
| "processNode cfg ctx (Element tn attrs kids) st =
     (let tagName = toLowerCase tn in
      if tagName \<in> set IGNORE_TAGS then (Null, st\<lparr>tagsRemoved := tagsRemoved st + 1\<rparr>)
      else
        let styleAttr = (case getAttribute attrs ''style'' of None \<Rightarrow> [] | Some v \<Rightarrow> v);
            st1 = (if styleAttr \<noteq> [] then st\<lparr>attributesRemoved := attributesRemoved st + 1\<rparr>
                   else st);
            hasBold = isBoldStyle styleAttr;
            hasItalic = isItalicStyle styleAttr;
            hasUnderline = isUnderlineStyle styleAttr;
            isHeader = isHeaderTag tagName;
            targetTag = BASE_TAG_MAP tagName;
            childContext = \<lparr>insideListListItem = (tagName = ''li'' \<or> insideListListItem ctx)\<rparr>
        in case processEach cfg childContext kids [] st1 of
             (fragment, st2) \<Rightarrow>
               if fragment = [] \<and> targetTag \<noteq> Some ''br'' then (Null, st2)
               else
                 (blockWrapper targetTag ctx
                    (visualWrappers targetTag tagName hasBold hasItalic hasUnderline isHeader
                       (Fragment fragment)),
                  st2))"
| "processNode cfg ctx Other st = (Null, st)"
| "processEach cfg ctx [] fragment st = (fragment, st)"
| "processEach cfg ctx (child # rest) fragment st =
     (case processNode cfg ctx child st of
        (processed, st') \<Rightarrow>
          processEach cfg ctx rest
            (case processed of Null \<Rightarrow> fragment | _ \<Rightarrow> appendChild fragment processed) st')"

section \<open>First engine: clean-up on the tree, serialisation, trimming (lines 174-227)\<close>

fun textContent :: "onode \<Rightarrow> jstring" where
  "textContent (OText t) = t"
| "textContent (OElement n a kids) = concat (map textContent kids)"

text \<open>\<open>el.querySelectorAll(t).length > 0\<close>: some descendant element is named \<open>t\<close>.\<close>

fun isNamed :: "string \<Rightarrow> onode \<Rightarrow> bool" where
  "isNamed t (OText s) = False"
| "isNamed t (OElement n a kids) = (n = t)"

fun hasDescendant :: "string \<Rightarrow> onode \<Rightarrow> bool" where
  "hasDescendant t (OText s) = False"
| "hasDescendant t (OElement n a kids) = (\<exists>k \<in> set kids. isNamed t k \<or> hasDescendant t k)"

text \<open>
  \<open>cleanEmptyTags\<close> walks the candidates from the last to the first in document order, so
  every element is examined after all of its descendants; whether it is removed depends on
  its own subtree only.  \<open>cleanEmptyNode\<close> gives what is left of one node.
\<close>

fun cleanEmptyNode :: "onode \<Rightarrow> onode list" where
  "cleanEmptyNode (OText t) = [OText t]"
| "cleanEmptyNode (OElement n a kids) =
     (let el = OElement n a (concat (map cleanEmptyNode kids))
      in if n \<in> set [''b'', ''i'', ''u'', ''sub'', ''sup'', ''p'', ''li'']
            \<and> trim (textContent el) = [] \<and> \<not> hasDescendant ''br'' el
         then [] else [el])"

definition cleanEmptyTags :: "onode list \<Rightarrow> onode list" where
  "cleanEmptyTags kids = concat (map cleanEmptyNode kids)"

text \<open>
  Line-break mode: every \<open>p\<close> gives its children to its parent, in its place, followed by
  two new \<open>br\<close>.  The list of \<open>p\<close> elements is taken once, so nested ones are replaced too.
\<close>

fun replaceParagraphs :: "onode \<Rightarrow> onode list" where
  "replaceParagraphs (OText t) = [OText t]"
| "replaceParagraphs (OElement n a kids) =
     (let kids' = concat (map replaceParagraphs kids)
      in if n = ''p'' then kids' @ [createElement ''br'', createElement ''br'']
         else [OElement n a kids'])"

text \<open>\<open>innerHTML\<close>, the HTML fragment serialisation algorithm.\<close>

definition escapeText :: "jstring \<Rightarrow> jstring" where
  "escapeText s = concat (map (\<lambda>c.
     if c = 38 then U ''&amp;'' else if c = 160 then U ''&nbsp;''
     else if c = 60 then U ''&lt;'' else if c = 62 then U ''&gt;'' else [c]) s)"

definition escapeAttribute :: "jstring \<Rightarrow> jstring" where
  "escapeAttribute s = concat (map (\<lambda>c.
     if c = 38 then U ''&amp;'' else if c = 160 then U ''&nbsp;''
     else if c = 34 then U ''&quot;'' else [c]) s)"

definition serializeAttributes :: "(string \<times> jstring) list \<Rightarrow> jstring" where
  "serializeAttributes attrs =
     concat (map (\<lambda>(k, v). U '' '' @ U k @ U ''=\"'' @ escapeAttribute v @ U ''\"'') attrs)"

definition voidElements :: "string list" where
  "voidElements =
     [''area'', ''base'', ''basefont'', ''bgsound'', ''br'', ''col'', ''embed'', ''frame'',
      ''hr'', ''img'', ''input'', ''keygen'', ''link'', ''meta'', ''param'', ''source'',
      ''track'', ''wbr'']"

fun serialize :: "onode \<Rightarrow> jstring" where
  "serialize (OText t) = escapeText t"
| "serialize (OElement n a kids) =
     U ''<'' @ U n @ serializeAttributes a @ U ''>'' @
     (if n \<in> set voidElements then []
      else concat (map serialize kids) @ U ''</'' @ U n @ U ''>'')"

definition innerHTML :: "onode list \<Rightarrow> jstring" where
  "innerHTML kids = concat (map serialize kids)"

definition startsWith :: "jstring \<Rightarrow> jstring \<Rightarrow> bool" where
  "startsWith s p \<longleftrightarrow> take (length p) s = p"

definition endsWith :: "jstring \<Rightarrow> jstring \<Rightarrow> bool" where
  "endsWith s p \<longleftrightarrow> length p \<le> length s \<and> drop (length s - length p) s = p"

function stripLeadingBreaks :: "jstring \<Rightarrow> jstring" where
  "stripLeadingBreaks s =
     (if startsWith s (U ''<br>'') then stripLeadingBreaks (drop 4 s) else s)"
  by pat_completeness auto
termination
proof (relation "measure length")
  fix s :: jstring
  assume "startsWith s (U ''<br>'')"
  then have "s \<noteq> []"
    by (auto simp: startsWith_def U_def)
  then show "(drop 4 s, s) \<in> measure length"
    by simp
qed simp

function stripTrailingBreaks :: "jstring \<Rightarrow> jstring" where
  "stripTrailingBreaks s =
     (if endsWith s (U ''<br>'') then stripTrailingBreaks (take (length s - 4) s) else s)"
  by pat_completeness auto
termination
proof (relation "measure length")
  fix s :: jstring
  assume "endsWith s (U ''<br>'')"
  then have "s \<noteq> []"
    by (auto simp: endsWith_def U_def)
  then show "(take (length s - 4) s, s) \<in> measure length"
    by simp
qed simp

section \<open>First engine: \<open>cleanHtml\<close> (lines 46-247)\<close>

text \<open>
  \<open>DOMPurify.sanitize\<close> and \<open>DOMParser.parseFromString\<close> belong to the platform, not to
  the repository: they are parameters.  The sanitizer receives the options the engine passes.
  Either may throw; the parsed document is given by the children of its head and of its
  body.  A thrown value is an \<open>Error\<close> with its message.
\<close>

record sanitizeOptions =
  FORBID_TAGS :: "string list"
  FORBID_ATTR :: "string list"

datatype exn = Error jstring

record document =
  docHead :: "node list"
  docBody :: "node list"

record conversion =
  html :: jstring
  stats :: processingStats
  error :: "jstring option"

text \<open>\<open>doc.querySelector(t)\<close> is not null: an element named \<open>t\<close> stands in the document.\<close>

fun containsElement :: "string \<Rightarrow> node \<Rightarrow> bool" where
  "containsElement t (Text s) = False"
| "containsElement t (Element n a kids) =
     (toLowerCase n = t \<or> (\<exists>k \<in> set kids. containsElement t k))"
| "containsElement t Other = False"

definition querySelector :: "document \<Rightarrow> string \<Rightarrow> bool" where
  "querySelector doc t \<longleftrightarrow>
     (\<exists>k \<in> set (docHead doc @ docBody doc). containsElement t k)"

text \<open>The body of the \<open>try\<close> block: \<open>Inl\<close> is a throw.\<close>

definition tryClean ::
  "(sanitizeOptions \<Rightarrow> jstring \<Rightarrow> exn + jstring) \<Rightarrow> (jstring \<Rightarrow> exn + document)
     \<Rightarrow> jstring \<Rightarrow> config \<Rightarrow> exn + conversion"
where
  "tryClean sanitize parseFromString rawHtml cfg =
     (case sanitize \<lparr>FORBID_TAGS = [''style'', ''script''],
                     FORBID_ATTR = [''onmouseover'', ''onclick'', ''onerror'']\<rparr> rawHtml of
        Inl e \<Rightarrow> Inl e
      | Inr cleanInput \<Rightarrow>
          (case parseFromString cleanInput of
             Inl e \<Rightarrow> Inl e
           | Inr doc \<Rightarrow>
               if querySelector doc ''parsererror''
               then Inl (Error (U ''Malformed HTML structure detected.''))
               else
                 (case processEach cfg \<lparr>insideListListItem = False\<rparr> (docBody doc) []
                         \<lparr>tagsRemoved = 0, attributesRemoved = 0\<rparr> of
                    (resultFragment, st) \<Rightarrow>
                      let tempDiv = cleanEmptyTags resultFragment;
                          tempDiv = (if \<not> useParagraphs cfg
                                     then concat (map replaceParagraphs tempDiv) else tempDiv);
                          finalHtml = innerHTML tempDiv;
                          finalHtml = trim finalHtml;
                          finalHtml = stripLeadingBreaks finalHtml;
                          finalHtml = stripTrailingBreaks finalHtml
                      in Inr \<lparr>html = finalHtml,
                              stats = \<lparr>tagsRemoved = tagsRemoved st,
                                       attributesRemoved = attributesRemoved st,
                                       originalLength = length rawHtml,
                                       finalLength = length finalHtml\<rparr>,
                              error = None\<rparr>)))"

definition zeroStats :: processingStats where
  "zeroStats = \<lparr>tagsRemoved = 0, attributesRemoved = 0, originalLength = 0, finalLength = 0\<rparr>"

definition cleanHtml ::
  "(sanitizeOptions \<Rightarrow> jstring \<Rightarrow> exn + jstring) \<Rightarrow> (jstring \<Rightarrow> exn + document)
     \<Rightarrow> jstring \<Rightarrow> config \<Rightarrow> conversion"
where
  "cleanHtml sanitize parseFromString rawHtml cfg =
     (case tryClean sanitize parseFromString rawHtml cfg of
        Inr r \<Rightarrow> r
      | Inl (Error message) \<Rightarrow>
          \<lparr>html = [], stats = zeroStats,
           error = Some (if message \<noteq> [] then message
                         else U ''An unexpected error occurred during processing.'')\<rparr>)"

section \<open>Second engine: tables and helpers (lines 248-297)\<close>

text \<open>The second engine has no native lists: list containers become paragraphs and a list
  item becomes a break.\<close>

definition BASE_TAG_MAP2 :: "string \<Rightarrow> string option" where
  "BASE_TAG_MAP2 = map_of
     [(''strong'', ''b''), (''b'', ''b''),
      (''em'', ''i''), (''i'', ''i''), (''cite'', ''i''), (''var'', ''i''),
      (''u'', ''u''), (''ins'', ''u''),
      (''sub'', ''sub''), (''sup'', ''sup''),
      (''br'', ''br''), (''hr'', ''br''),
      (''p'', ''p''), (''div'', ''p''), (''blockquote'', ''p''), (''pre'', ''p''),
      (''address'', ''p''), (''center'', ''p''),
      (''h1'', ''p''), (''h2'', ''p''), (''h3'', ''p''), (''h4'', ''p''), (''h5'', ''p''),
      (''h6'', ''p''),
      (''article'', ''p''), (''section'', ''p''), (''main'', ''p''), (''nav'', ''p''),
      (''aside'', ''p''), (''header'', ''p''), (''footer'', ''p''),
      (''ul'', ''p''), (''ol'', ''p''), (''dl'', ''p''),
      (''li'', ''br''), (''dd'', ''br''), (''dt'', ''b''),
      (''table'', ''p''), (''tr'', ''br''), (''td'', ''span''), (''th'', ''b'')]"

record listContext = conversionContext +
  parentListType :: "string option"
  listIndex :: "int option"

text \<open>
  \<open>parseInt(s, 10)\<close>: leading white space, an optional sign, then the longest run of decimal
  digits; \<open>None\<close> is \<open>NaN\<close>.  The source's numbers are IEEE doubles; the model is
  exact for indices below \<open>2^53\<close> in absolute value.
\<close>

definition isDigit :: "nat \<Rightarrow> bool" where
  "isDigit c \<longleftrightarrow> 48 \<le> c \<and> c \<le> 57"

definition digitsValue :: "jstring \<Rightarrow> nat" where
  "digitsValue ds = foldl (\<lambda>a c. 10 * a + (c - 48)) 0 ds"

definition parseInt :: "jstring \<Rightarrow> int option" where
  "parseInt s =
     (let t = dropWhile isWhiteSpace s;
          negative = (t \<noteq> [] \<and> hd t = 45);
          t = (if t \<noteq> [] \<and> (hd t = 45 \<or> hd t = 43) then tl t else t);
          ds = takeWhile isDigit t
      in if ds = [] then None
         else Some ((if negative then - 1 else 1) * int (digitsValue ds)))"

function digitsOf :: "nat \<Rightarrow> jstring" where
  "digitsOf n = (if n < 10 then [48 + n] else digitsOf (n div 10) @ [48 + n mod 10])"
  by pat_completeness auto
termination
  by (relation "measure id") auto

definition numberToString :: "int \<Rightarrow> jstring" where
  "numberToString i = (if i < 0 then 45 # digitsOf (nat (- i)) else digitsOf (nat i))"

text \<open>\<open>child.nodeName.toLowerCase()\<close>\<close>

fun nodeName :: "node \<Rightarrow> string" where
  "nodeName (Text t) = ''#text''"
| "nodeName (Element n a kids) = n"
| "nodeName Other = ''#comment''"

text \<open>The pre-check: \<open>getElementsByTagName('*')\<close> and \<open>textContent\<close> of the body.\<close>

fun elementNames :: "node \<Rightarrow> string list" where
  "elementNames (Text t) = []"
| "elementNames (Element n a kids) = toLowerCase n # concat (map elementNames kids)"
| "elementNames Other = []"

fun nodeText :: "node \<Rightarrow> jstring" where
  "nodeText (Text t) = t"
| "nodeText (Element n a kids) = concat (map nodeText kids)"
| "nodeText Other = []"

definition treatAsPlainText :: "node list \<Rightarrow> bool" where
  "treatAsPlainText body \<longleftrightarrow>
     (let hasBlockStructure = (\<exists>n \<in> set (concat (map elementNames body)). n \<in> set BLOCK_TAGS);
          bodyText = concat (map nodeText body)
      in \<not> hasBlockStructure \<and> bodyText \<noteq> [] \<and> length (trim bodyText) > 0)"

section \<open>Second engine: the walker (lines 321-474)\<close>

text \<open>Lines 455-470: paragraph, break, or nothing.\<close>

definition blockWrapper2 :: "string option \<Rightarrow> produced \<Rightarrow> produced" where
  "blockWrapper2 targetTag result =
     (if targetTag = Some ''p'' then wrap result ''p''
      else if targetTag = Some ''br'' then
        Fragment (appendChild (appendChild [] (Node (createElement ''br''))) result)
      else result)"

text \<open>Lines 355-361: the target tag, with the override inside a list item.\<close>

definition targetTagFor :: "listContext \<Rightarrow> string \<Rightarrow> string option" where
  "targetTagFor ctx tagName =
     (let isHeader = isHeaderTag tagName;
          targetTag = BASE_TAG_MAP2 tagName
      in if insideListListItem ctx \<and> (targetTag = Some ''p'' \<or> isHeader \<or> tagName = ''div'')
         then Some ''br'' else targetTag)"

text \<open>Lines 363-371: where the numbering of an ordered list starts.\<close>

definition firstListIndex :: "string \<Rightarrow> (string \<times> jstring) list \<Rightarrow> int" where
  "firstListIndex tagName attrs =
     (if tagName = ''ol'' then
        (case getAttribute attrs ''start'' of
           None \<Rightarrow> 1
         | Some startAttr \<Rightarrow>
             if startAttr \<noteq> [] then
               (case parseInt startAttr of None \<Rightarrow> 1 | Some parsed \<Rightarrow> parsed)
             else 1)
      else 1)"

text \<open>Lines 373-383: the text put in front of a list item or a table cell.\<close>

definition prefixFor :: "listContext \<Rightarrow> string \<Rightarrow> jstring" where
  "prefixFor ctx tagName =
     (if tagName = ''li'' then
        (if parentListType ctx = Some ''ol'' \<and> listIndex ctx \<noteq> None
         then numberToString (the (listIndex ctx)) @ U ''. ''
         else [8226, 32])
      else if tagName = ''td'' then U '' ''
      else [])"

text \<open>Lines 391-394: the context of the children, before an index is given to a list
  item.\<close>

definition childBaseContext :: "listContext \<Rightarrow> string \<Rightarrow> listContext" where
  "childBaseContext ctx tagName =
     \<lparr>insideListListItem =
        (tagName = ''li'' \<or> (insideListListItem ctx \<and> tagName \<notin> set BLOCK_TAGS)),
      parentListType =
        (if tagName = ''ul'' \<or> tagName = ''ol'' then Some tagName else parentListType ctx),
      listIndex = None\<rparr>"

fun processNode2 ::
    "config \<Rightarrow> bool \<Rightarrow> listContext \<Rightarrow> node \<Rightarrow> counters \<Rightarrow> produced \<times> counters"
  and processEach2 ::
    "config \<Rightarrow> bool \<Rightarrow> string \<Rightarrow> listContext \<Rightarrow> node list \<Rightarrow> int \<Rightarrow> onode list \<Rightarrow> bool
       \<Rightarrow> counters \<Rightarrow> (onode list \<times> bool) \<times> counters"
where
  "processNode2 cfg plain ctx (Text t) st =
     (if t = [] then (Null, st)
      else
        let text = (if \<not> plain then
                      (let text = collapseRuns isNewline t
                       in if aggressiveWhitespace cfg then collapseRuns isWhiteSpace text
                          else text)
                    else t)
        in (Node (OText text), st))"
| "processNode2 cfg plain ctx (Element tn attrs kids) st =
     (let tagName = toLowerCase tn in
      if tagName \<in> set IGNORE_TAGS then (Null, st\<lparr>tagsRemoved := tagsRemoved st + 1\<rparr>)
      else
        let styleAttr = (case getAttribute attrs ''style'' of None \<Rightarrow> [] | Some v \<Rightarrow> v);
            hasBold = isBoldStyle styleAttr;
            hasItalic = isItalicStyle styleAttr;
            hasUnderline = isUnderlineStyle styleAttr;
            isHeader = isHeaderTag tagName;
            targetTag = targetTagFor ctx tagName;
            nextListIndex = firstListIndex tagName attrs;
            prefix = prefixFor ctx tagName;
            fragment = (if prefix \<noteq> [] then [OText prefix] else [])
        in case processEach2 cfg plain tagName (childBaseContext ctx tagName) kids
                  nextListIndex fragment False st of
             ((fragment, hasContent), st2) \<Rightarrow>
               if \<not> hasContent \<and> targetTag \<noteq> Some ''br'' \<and> tagName \<noteq> ''td'' then (Null, st2)
               else
                 (blockWrapper2 targetTag
                    (visualWrappers targetTag tagName hasBold hasItalic hasUnderline isHeader
                       (Fragment fragment)),
                  st2))"
| "processNode2 cfg plain ctx Other st = (Null, st)"
| "processEach2 cfg plain tagName base [] nextListIndex fragment hasContent st =
     ((fragment, hasContent), st)"
| "processEach2 cfg plain tagName base (child # rest) nextListIndex fragment hasContent st =
     (let indexed = (tagName = ''ol'' \<and> toLowerCase (nodeName child) = ''li'');
          childContext = (if indexed then base\<lparr>listIndex := Some nextListIndex\<rparr> else base);
          nextListIndex = (if indexed then nextListIndex + 1 else nextListIndex)
      in case processNode2 cfg plain childContext child st of
           (processed, st') \<Rightarrow>
             (case processed of
                Null \<Rightarrow>
                  processEach2 cfg plain tagName base rest nextListIndex fragment hasContent
                    st'
              | _ \<Rightarrow>
                  let isWhitespace =
                        (case processed of Node (OText t) \<Rightarrow> trim t = [] | _ \<Rightarrow> False)
                  in processEach2 cfg plain tagName base rest nextListIndex
                       (appendChild fragment processed)
                       (if isWhitespace \<and> \<not> plain then hasContent else True) st'))"

text \<open>The top-level loop over \<open>doc.body.childNodes\<close> (lines 477-481): the default context.\<close>

fun processBody2 ::
  "config \<Rightarrow> bool \<Rightarrow> node list \<Rightarrow> onode list \<Rightarrow> counters \<Rightarrow> onode list \<times> counters"
where
  "processBody2 cfg plain [] resultFragment st = (resultFragment, st)"
| "processBody2 cfg plain (n # rest) resultFragment st =
     (case processNode2 cfg plain
             \<lparr>insideListListItem = False, parentListType = None, listIndex = None\<rparr> n st of
        (processed, st') \<Rightarrow>
          processBody2 cfg plain rest
            (case processed of Null \<Rightarrow> resultFragment
             | _ \<Rightarrow> appendChild resultFragment processed) st')"

section \<open>Second engine: clean-up by regular expressions (lines 487-523)\<close>

text \<open>
  A pattern is a function that, tried at the start of a string, gives the replacement text
  and what remains after the match.  \<open>s.replace(/.../g, r)\<close> tries the pattern at every
  position from the left and resumes after each match; every pattern of the engine matches
  at least one character.  None of the patterns needs backtracking: a greedy \<open>\s*\<close>,
  \<open>\d+\<close> or \<open>\/?\<close> is always followed by a character outside its own class.
\<close>

type_synonym pattern = "jstring \<Rightarrow> (jstring \<times> jstring) option"

function replaceAll :: "pattern \<Rightarrow> jstring \<Rightarrow> jstring" where
  "replaceAll m [] = []"
| "replaceAll m (c # cs) =
     (case m (c # cs) of
        None \<Rightarrow> c # replaceAll m cs
      | Some (replacement, rest) \<Rightarrow>
          if length rest \<le> length cs then replacement @ replaceAll m rest
          else c # replaceAll m cs)"
  by pat_completeness auto
termination
  by (relation "measure (\<lambda>(m, s). length s)") auto

fun literal :: "jstring \<Rightarrow> jstring \<Rightarrow> jstring option" where
  "literal [] s = Some s"
| "literal (p # ps) [] = None"
| "literal (p # ps) (c # cs) = (if c = p then literal ps cs else None)"

text \<open>\<open>/\n/g\<close> to \<open><br>\<close>\<close>

definition newlinePattern :: pattern where
  "newlinePattern s =
     (case literal [10] s of None \<Rightarrow> None | Some rest \<Rightarrow> Some (U ''<br>'', rest))"

text \<open>\<open>/<br\s*\/?>/gi\<close> to \<open><br>\<close>\<close>

definition breakPattern :: pattern where
  "breakPattern s =
     (case literalCI (U ''<br'') s of
        None \<Rightarrow> None
      | Some r \<Rightarrow>
          let r1 = skipSpaces r;
              r2 = (case literal (U ''/'') r1 of None \<Rightarrow> r1 | Some r' \<Rightarrow> r')
          in (case literal (U ''>'') r2 of
                None \<Rightarrow> None
              | Some rest \<Rightarrow> Some (U ''<br>'', rest)))"

text \<open>\<open>/(\<bullet>|\d+\.)\s*<br>/g\<close> to \<open>$1\<close> and a space\<close>

definition markerPattern :: pattern where
  "markerPattern s =
     (let ds = takeWhile isDigit s;
          group =
            (if s \<noteq> [] \<and> hd s = 8226 then Some ([8226], tl s)
             else if ds \<noteq> [] then
               (case literal (U ''.'') (dropWhile isDigit s) of
                  None \<Rightarrow> None
                | Some r \<Rightarrow> Some (ds @ U ''.'', r))
             else None)
      in case group of
           None \<Rightarrow> None
         | Some (g, r) \<Rightarrow>
             (case literal (U ''<br>'') (skipSpaces r) of
                None \<Rightarrow> None
              | Some rest \<Rightarrow> Some (g @ U '' '', rest)))"

text \<open>\<open>/A\s*B/\<close> with literal \<open>A\<close> and \<open>B\<close>, with or without the flag \<open>i\<close>, to a fixed
  replacement.\<close>

definition pairPattern :: "bool \<Rightarrow> jstring \<Rightarrow> jstring \<Rightarrow> jstring \<Rightarrow> pattern" where
  "pairPattern ignoreCase a b replacement s =
     (let lit = (if ignoreCase then literalCI else literal)
      in case lit a s of
           None \<Rightarrow> None
         | Some r \<Rightarrow>
             (case lit b (skipSpaces r) of
                None \<Rightarrow> None
              | Some rest \<Rightarrow> Some (replacement, rest)))"

text \<open>\<open>/A/gi\<close> with a literal \<open>A\<close>, to a fixed replacement.\<close>

definition tagPattern :: "jstring \<Rightarrow> jstring \<Rightarrow> pattern" where
  "tagPattern a replacement s =
     (case literalCI a s of None \<Rightarrow> None | Some rest \<Rightarrow> Some (replacement, rest))"

definition regexCleanup :: "config \<Rightarrow> bool \<Rightarrow> jstring \<Rightarrow> jstring" where
  "regexCleanup cfg plain finalHtml =
     (let finalHtml = (if plain then replaceAll newlinePattern finalHtml else finalHtml);
          finalHtml = replaceAll breakPattern finalHtml;
          finalHtml = replaceAll markerPattern finalHtml;
          finalHtml =
            replaceAll (pairPattern True (U ''<p>'') (U ''<p>'') (U ''<p>'')) finalHtml;
          finalHtml =
            replaceAll (pairPattern True (U ''</p>'') (U ''</p>'') (U ''</p>'')) finalHtml;
          finalHtml =
            replaceAll (pairPattern True (U ''<p>'') (U ''<br>'') (U ''<p>'')) finalHtml;
          finalHtml =
            (if \<not> useParagraphs cfg then
               replaceAll (tagPattern (U ''</p>'') (U ''<br><br>''))
                 (replaceAll (tagPattern (U ''<p>'') []) finalHtml)
             else finalHtml);
          finalHtml = replaceAll (pairPattern False (U ''<b>'') (U ''</b>'') []) finalHtml;
          finalHtml = replaceAll (pairPattern False (U ''<i>'') (U ''</i>'') []) finalHtml;
          finalHtml = replaceAll (pairPattern False (U ''<u>'') (U ''</u>'') []) finalHtml;
          finalHtml = replaceAll (pairPattern False (U ''<sub>'') (U ''</sub>'') []) finalHtml;
          finalHtml = replaceAll (pairPattern False (U ''<sup>'') (U ''</sup>'') []) finalHtml;
          finalHtml = replaceAll (pairPattern False (U ''<p>'') (U ''</p>'') []) finalHtml;
          finalHtml = trim finalHtml;
          finalHtml = stripLeadingBreaks finalHtml;
          finalHtml = stripTrailingBreaks finalHtml
      in finalHtml)"

section \<open>Second engine: \<open>cleanHtml\<close> (lines 299-542)\<close>

definition tryClean2 ::
  "(jstring \<Rightarrow> exn + document) \<Rightarrow> jstring \<Rightarrow> config \<Rightarrow> exn + conversion"
where
  "tryClean2 parseFromString rawHtml cfg =
     (case parseFromString rawHtml of
        Inl e \<Rightarrow> Inl e
      | Inr doc \<Rightarrow>
          if querySelector doc ''parsererror''
          then Inl (Error (U ''Malformed HTML structure detected.''))
          else
            let plain = treatAsPlainText (docBody doc)
            in (case processBody2 cfg plain (docBody doc) []
                       \<lparr>tagsRemoved = 0, attributesRemoved = 0\<rparr> of
                  (resultFragment, st) \<Rightarrow>
                    let finalHtml = regexCleanup cfg plain (innerHTML resultFragment)
                    in Inr \<lparr>html = finalHtml,
                            stats = \<lparr>tagsRemoved = tagsRemoved st,
                                     attributesRemoved = attributesRemoved st,
                                     originalLength = length rawHtml,
                                     finalLength = length finalHtml\<rparr>,
                            error = None\<rparr>))"

definition cleanHtml2 :: "(jstring \<Rightarrow> exn + document) \<Rightarrow> jstring \<Rightarrow> config \<Rightarrow> conversion" where
  "cleanHtml2 parseFromString rawHtml cfg =
     (case tryClean2 parseFromString rawHtml cfg of
        Inr r \<Rightarrow> r
      | Inl e \<Rightarrow>
          \<lparr>html = [], stats = zeroStats,
           error = Some (U (''Could not parse the provided content. It may contain '' @
                           ''unsupported binary data or malformed tags.''))\<rparr>)"

section \<open>Notions the claims are stated with\<close>

text \<open>
  The elements the walker meets: those of the tree that do not lie below a discarded element.
  \<open>discardedCount\<close> counts the discarded ones among them, \<open>styledCount\<close> those that are
  kept and carry a non-empty \<open>style\<close> attribute.
\<close>

definition hasStyle :: "(string \<times> jstring) list \<Rightarrow> bool" where
  "hasStyle attrs \<longleftrightarrow> (case getAttribute attrs ''style'' of None \<Rightarrow> False | Some v \<Rightarrow> v \<noteq> [])"

fun discardedCount :: "node \<Rightarrow> nat" where
  "discardedCount (Text t) = 0"
| "discardedCount (Element tn attrs kids) =
     (if toLowerCase tn \<in> set IGNORE_TAGS then 1 else sum_list (map discardedCount kids))"
| "discardedCount Other = 0"

fun styledCount :: "node \<Rightarrow> nat" where
  "styledCount (Text t) = 0"
| "styledCount (Element tn attrs kids) =
     (if toLowerCase tn \<in> set IGNORE_TAGS then 0
      else (if hasStyle attrs then 1 else 0) + sum_list (map styledCount kids))"
| "styledCount Other = 0"

text \<open>The nodes a result of the walker contributes to its parent, and the result of the first
  walker as a function of the tree alone (the counters do not influence it).\<close>

fun nodesOf :: "produced \<Rightarrow> onode list" where
  "nodesOf Null = []"
| "nodesOf (Node n) = [n]"
| "nodesOf (Fragment ns) = ns"

definition rewritten :: "config \<Rightarrow> conversionContext \<Rightarrow> node \<Rightarrow> produced" where
  "rewritten cfg ctx n = fst (processNode cfg ctx n \<lparr>tagsRemoved = 0, attributesRemoved = 0\<rparr>)"

definition rewrittenAll :: "config \<Rightarrow> conversionContext \<Rightarrow> node list \<Rightarrow> onode list" where
  "rewrittenAll cfg ctx ns = concat (map (\<lambda>n. nodesOf (rewritten cfg ctx n)) ns)"

text \<open>Lines 181-227 of the first engine as one function of the rewritten fragment.\<close>

definition postProcess :: "config \<Rightarrow> onode list \<Rightarrow> jstring" where
  "postProcess cfg resultFragment =
     stripTrailingBreaks (stripLeadingBreaks (trim (innerHTML
       (if \<not> useParagraphs cfg then concat (map replaceParagraphs (cleanEmptyTags resultFragment))
        else cleanEmptyTags resultFragment))))"

definition engineOptions :: sanitizeOptions where
  "engineOptions = \<lparr>FORBID_TAGS = [''style'', ''script''],
                    FORBID_ATTR = [''onmouseover'', ''onclick'', ''onerror'']\<rparr>"

definition topContext :: conversionContext where
  "topContext = \<lparr>insideListListItem = False\<rparr>"

definition topContext2 :: listContext where
  "topContext2 = \<lparr>insideListListItem = False, parentListType = None, listIndex = None\<rparr>"

section \<open>The platform on the inputs of the examples\<close>

text \<open>
  What the sanitizer and the HTML parser of a browser give on the strings the examples use.
  The sanitizer returns these strings as they are, except that it removes a \<open>script\<close>
  element with its content when asked to forbid the tag.  The parser puts a \<open>script\<close>
  element that opens the document into the head.
\<close>

definition examplePurify :: "sanitizeOptions \<Rightarrow> jstring \<Rightarrow> exn + jstring" where
  "examplePurify opts s =
     (if s = U ''<script>alert(1)</script>Safe text'' \<and> ''script'' \<in> set (FORBID_TAGS opts)
      then Inr (U ''Safe text'') else Inr s)"

definition exampleParse :: "jstring \<Rightarrow> exn + document" where
  "exampleParse s =
     (if s = U ''Safe text'' then
        Inr \<lparr>docHead = [], docBody = [Text (U ''Safe text'')]\<rparr>
      else if s = U ''<script>alert(1)</script>Safe text'' then
        Inr \<lparr>docHead = [Element ''SCRIPT'' [] [Text (U ''alert(1)'')]],
             docBody = [Text (U ''Safe text'')]\<rparr>
      else if s = U ''a <br>'' then
        Inr \<lparr>docHead = [], docBody = [Text (U ''a ''), Element ''BR'' [] []]\<rparr>
      else if s = U ''a '' then
        Inr \<lparr>docHead = [], docBody = [Text (U ''a '')]\<rparr>
      else if s = U ''<ul><li><p>Item</p></li></ul>'' then
        Inr \<lparr>docHead = [],
             docBody = [Element ''UL'' [] [Element ''LI'' [] [Element ''P'' [] [Text (U ''Item'')]]]]\<rparr>
      else if s = U ''<ol><div><li>x</li></div></ol>'' then
        Inr \<lparr>docHead = [],
             docBody = [Element ''OL'' [] [Element ''DIV'' [] [Element ''LI'' [] [Text (U ''x'')]]]]\<rparr>
      else Inr \<lparr>docHead = [], docBody = []\<rparr>)"

text \<open>The fragment collected from the children of an element, in the first and in the second
  engine (for the second: with the prefix text the element starts its fragment with).\<close>

definition childFragment :: "config \<Rightarrow> conversionContext \<Rightarrow> string \<Rightarrow> node list \<Rightarrow> onode list" where
  "childFragment cfg ctx tn kids =
     rewrittenAll cfg \<lparr>insideListListItem = (toLowerCase tn = ''li'' \<or> insideListListItem ctx)\<rparr>
       kids"

definition childFragment2 ::
  "config \<Rightarrow> bool \<Rightarrow> listContext \<Rightarrow> string \<Rightarrow> (string \<times> jstring) list \<Rightarrow> node list
     \<Rightarrow> counters \<Rightarrow> onode list"
where
  "childFragment2 cfg plain ctx tn attrs kids st =
     fst (fst (processEach2 cfg plain (toLowerCase tn) (childBaseContext ctx (toLowerCase tn))
       kids (firstListIndex (toLowerCase tn) attrs)
       (if prefixFor ctx (toLowerCase tn) \<noteq> [] then [OText (prefixFor ctx (toLowerCase tn))]
        else [])
       False st))"

text \<open>The content of an element before its block wrapper: the collected fragment inside the
  bold, italic, underline, subscript and superscript wrappers the element itself calls
  for.\<close>

definition styleOf :: "(string \<times> jstring) list \<Rightarrow> jstring" where
  "styleOf attrs = (case getAttribute attrs ''style'' of None \<Rightarrow> [] | Some v \<Rightarrow> v)"

definition wrappedContent ::
  "config \<Rightarrow> conversionContext \<Rightarrow> string \<Rightarrow> (string \<times> jstring) list \<Rightarrow> node list \<Rightarrow> produced"
where
  "wrappedContent cfg ctx tn attrs kids =
     visualWrappers (BASE_TAG_MAP (toLowerCase tn)) (toLowerCase tn)
       (isBoldStyle (styleOf attrs)) (isItalicStyle (styleOf attrs))
       (isUnderlineStyle (styleOf attrs)) (isHeaderTag (toLowerCase tn))
       (Fragment (childFragment cfg ctx tn kids))"

definition wrappedContent2 ::
  "config \<Rightarrow> bool \<Rightarrow> listContext \<Rightarrow> string \<Rightarrow> (string \<times> jstring) list \<Rightarrow> node list
     \<Rightarrow> counters \<Rightarrow> produced"
where
  "wrappedContent2 cfg plain ctx tn attrs kids st =
     visualWrappers (targetTagFor ctx (toLowerCase tn)) (toLowerCase tn)
       (isBoldStyle (styleOf attrs)) (isItalicStyle (styleOf attrs))
       (isUnderlineStyle (styleOf attrs)) (isHeaderTag (toLowerCase tn))
       (Fragment (childFragment2 cfg plain ctx tn attrs kids st))"

text \<open>The result of the second walker as a function of the tree and the context, and the
  contexts its loop gives to the children of an element named \<open>tagName\<close>, in order.\<close>

definition rewritten2 :: "config \<Rightarrow> bool \<Rightarrow> listContext \<Rightarrow> node \<Rightarrow> produced" where
  "rewritten2 cfg plain ctx n =
     fst (processNode2 cfg plain ctx n \<lparr>tagsRemoved = 0, attributesRemoved = 0\<rparr>)"

definition isListItem :: "node \<Rightarrow> bool" where
  "isListItem n \<longleftrightarrow> toLowerCase (nodeName n) = ''li''"

fun childContexts :: "string \<Rightarrow> listContext \<Rightarrow> node list \<Rightarrow> int \<Rightarrow> listContext list" where
  "childContexts tagName base [] idx = []"
| "childContexts tagName base (child # rest) idx =
     (if tagName = ''ol'' \<and> isListItem child
      then base\<lparr>listIndex := Some idx\<rparr> # childContexts tagName base rest (idx + 1)
      else base # childContexts tagName base rest idx)"

section \<open>The style classifier, declaratively\<close>

text \<open>
  \<open>declares property vals s\<close>: somewhere in \<open>s\<close> stands the property name (ASCII letters in
  either case), optional white space, a colon, optional white space and, right after it, one
  of the values (again in either case); anything may precede and follow.
\<close>

definition declares :: "jstring \<Rightarrow> jstring list \<Rightarrow> jstring \<Rightarrow> bool" where
  "declares property vals s \<longleftrightarrow>
     (\<exists>pre name ws1 ws2 v post.
        s = pre @ name @ ws1 @ [58] @ ws2 @ v @ post
        \<and> map lowerCode name = property
        \<and> list_all isWhiteSpace ws1 \<and> list_all isWhiteSpace ws2
        \<and> map lowerCode v \<in> set vals)"

text \<open>
  The reading of the specification for underline, ``a text-decoration property with value
  containing underline'': the word stands anywhere in the value, the text between the colon
  and the next semicolon.
\<close>

definition declaresContaining :: "jstring \<Rightarrow> jstring \<Rightarrow> jstring \<Rightarrow> bool" where
  "declaresContaining property word s \<longleftrightarrow>
     (\<exists>pre name ws1 before w after post.
        s = pre @ name @ ws1 @ [58] @ (before @ w @ after) @ post
        \<and> map lowerCode name = property
        \<and> list_all isWhiteSpace ws1
        \<and> 59 \<notin> set (before @ w @ after)
        \<and> map lowerCode w = word)"

section \<open>Evaluation rules\<close>

text \<open>The loops defined by \<^theory_text>\<open>function\<close> unfold only when their test is decided.\<close>

declare stripLeadingBreaks.simps [simp del]
declare stripTrailingBreaks.simps [simp del]
declare digitsOf.simps [simp del]

lemma stripLeadingBreaks_more:
  "startsWith s (U ''<br>'') \<Longrightarrow> stripLeadingBreaks s = stripLeadingBreaks (drop 4 s)"
  by (subst stripLeadingBreaks.simps) simp

lemma stripLeadingBreaks_done: "\<not> startsWith s (U ''<br>'') \<Longrightarrow> stripLeadingBreaks s = s"
  by (subst stripLeadingBreaks.simps) simp

lemma stripTrailingBreaks_more:
  "endsWith s (U ''<br>'')
     \<Longrightarrow> stripTrailingBreaks s = stripTrailingBreaks (take (length s - 4) s)"
  by (subst stripTrailingBreaks.simps) simp

lemma stripTrailingBreaks_done: "\<not> endsWith s (U ''<br>'') \<Longrightarrow> stripTrailingBreaks s = s"
  by (subst stripTrailingBreaks.simps) simp

lemma digitsOf_small: "n < 10 \<Longrightarrow> digitsOf n = [48 + n]"
  by (subst digitsOf.simps) simp

lemma digitsOf_large: "\<not> n < 10 \<Longrightarrow> digitsOf n = digitsOf (n div 10) @ [48 + n mod 10]"
  by (subst digitsOf.simps) simp

lemmas string_rules =
  U_def isWhiteSpace_def isNewline_def trim_def trimStart_def trimEnd_def skipSpaces_def
  lowerCode_def startsWith_def endsWith_def isDigit_def
  stripLeadingBreaks_more stripLeadingBreaks_done
  stripTrailingBreaks_more stripTrailingBreaks_done

lemma newlinePattern_eval:
  "newlinePattern s =
     (case literal [10] s of None \<Rightarrow> None | Some rest \<Rightarrow> Some ([60, 98, 114, 62], rest))"
  by (simp add: newlinePattern_def U_def split: option.split)

lemma breakPattern_eval:
  "breakPattern s =
     (case literalCI [60, 98, 114] s of
        None \<Rightarrow> None
      | Some r \<Rightarrow>
          (case literal [62]
                  (case literal [47] (skipSpaces r) of None \<Rightarrow> skipSpaces r | Some r' \<Rightarrow> r') of
             None \<Rightarrow> None
           | Some rest \<Rightarrow> Some ([60, 98, 114, 62], rest)))"
  by (simp add: breakPattern_def U_def Let_def split: option.split)

lemma markerPattern_bullet:
  "markerPattern (8226 # s) =
     (case literal [60, 98, 114, 62] (skipSpaces s) of
        None \<Rightarrow> None
      | Some rest \<Rightarrow> Some ([8226, 32], rest))"
  by (simp add: markerPattern_def U_def Let_def split: option.split)

lemma markerPattern_digit:
  "isDigit c \<Longrightarrow> markerPattern (c # s) =
     (case literal [46] (dropWhile isDigit s) of
        None \<Rightarrow> None
      | Some r \<Rightarrow>
          (case literal [60, 98, 114, 62] (skipSpaces r) of
             None \<Rightarrow> None
           | Some rest \<Rightarrow> Some (c # takeWhile isDigit s @ [46, 32], rest)))"
  by (auto simp: markerPattern_def U_def Let_def isDigit_def split: option.splits)

lemma markerPattern_other: "c \<noteq> 8226 \<Longrightarrow> \<not> isDigit c \<Longrightarrow> markerPattern (c # s) = None"
  by (simp add: markerPattern_def Let_def)

text \<open>Rules for evaluating the engines on a concrete tree: the equations of the walkers and
  of the clean-up with their \<open>let\<close> bindings unfolded, given to the simplifier in place of
  the original equations.\<close>

lemmas let_rules =
  processNode.simps(1,2) processNode2.simps(1,2) processEach2.simps(2)
  cleanEmptyNode.simps(2) replaceParagraphs.simps(2)

lemmas walker_rules =
  processNode.simps(1,2) [unfolded Let_def]
  processNode2.simps(1,2) [unfolded Let_def] processEach2.simps(2) [unfolded Let_def]
  toLowerCase_def toLowerChar_def IGNORE_TAGS_def BLOCK_TAGS_def BASE_TAG_MAP_def
  BASE_TAG_MAP2_def isHeaderTag_def getAttribute_def wrap_def createElement_def
  visualWrappers_def [unfolded Let_def] blockWrapper_def blockWrapper2_def
  targetTagFor_def [unfolded Let_def] firstListIndex_def prefixFor_def childBaseContext_def
  isBoldStyle_def isItalicStyle_def isUnderlineStyle_def declarationAt_def

lemmas output_rules =
  cleanEmptyNode.simps(2) [unfolded Let_def] replaceParagraphs.simps(2) [unfolded Let_def]
  cleanEmptyTags_def escapeText_def serializeAttributes_def voidElements_def innerHTML_def

lemmas pattern_rules =
  newlinePattern_eval breakPattern_eval markerPattern_bullet markerPattern_digit
  markerPattern_other pairPattern_def [unfolded Let_def] tagPattern_def
  regexCleanup_def [unfolded Let_def]

section \<open>Error containment\<close>

lemma cleanHtml_failure:
  "tryClean sanitize parseFromString rawHtml cfg = Inl e
     \<Longrightarrow> html (cleanHtml sanitize parseFromString rawHtml cfg) = []
       \<and> stats (cleanHtml sanitize parseFromString rawHtml cfg) = zeroStats
       \<and> error (cleanHtml sanitize parseFromString rawHtml cfg) \<noteq> None"
  by (cases e) (simp add: cleanHtml_def)

lemma tryClean_success:
  "tryClean sanitize parseFromString rawHtml cfg = Inr r \<Longrightarrow> error r = None"
  by (auto simp: tryClean_def Let_def split: sum.splits if_splits prod.splits)

lemma cleanHtml_success:
  "tryClean sanitize parseFromString rawHtml cfg = Inr r
     \<Longrightarrow> cleanHtml sanitize parseFromString rawHtml cfg = r"
  by (simp add: cleanHtml_def)

lemma cleanHtml2_failure:
  "tryClean2 parseFromString rawHtml cfg = Inl e
     \<Longrightarrow> html (cleanHtml2 parseFromString rawHtml cfg) = []
       \<and> stats (cleanHtml2 parseFromString rawHtml cfg) = zeroStats
       \<and> error (cleanHtml2 parseFromString rawHtml cfg) \<noteq> None"
  by (simp add: cleanHtml2_def)

lemma tryClean2_success: "tryClean2 parseFromString rawHtml cfg = Inr r \<Longrightarrow> error r = None"
  by (auto simp: tryClean2_def Let_def split: sum.splits if_splits prod.splits)

lemma cleanHtml2_success:
  "tryClean2 parseFromString rawHtml cfg = Inr r \<Longrightarrow> cleanHtml2 parseFromString rawHtml cfg = r"
  by (simp add: cleanHtml2_def)

lemma zeroStats_fields:
  "originalLength zeroStats = 0 \<and> finalLength zeroStats = 0
     \<and> tagsRemoved zeroStats = 0 \<and> attributesRemoved zeroStats = 0"
  by (simp add: zeroStats_def)

text \<open>
  Claim C8.  \<open>cleanHtml\<close> is a total function into the result record: whatever the sanitizer,
  the parser or the engine itself throws inside the \<open>try\<close> block (\<open>Inl\<close>) comes back as a
  result with an error message, and a result with an error message has an empty \<open>html\<close>
  and all four statistics at zero.  Both engines.
\<close>

theorem failure_is_contained_with_zero_stats:
  "((\<exists>e. tryClean sanitize parseFromString rawHtml cfg = Inl e)
      \<longleftrightarrow> error (cleanHtml sanitize parseFromString rawHtml cfg) \<noteq> None)
   \<and> (error (cleanHtml sanitize parseFromString rawHtml cfg) \<noteq> None \<longrightarrow>
        html (cleanHtml sanitize parseFromString rawHtml cfg) = []
      \<and> originalLength (stats (cleanHtml sanitize parseFromString rawHtml cfg)) = 0
      \<and> finalLength (stats (cleanHtml sanitize parseFromString rawHtml cfg)) = 0
      \<and> tagsRemoved (stats (cleanHtml sanitize parseFromString rawHtml cfg)) = 0
      \<and> attributesRemoved (stats (cleanHtml sanitize parseFromString rawHtml cfg)) = 0)
   \<and> ((\<exists>e. tryClean2 parseFromString rawHtml cfg = Inl e)
      \<longleftrightarrow> error (cleanHtml2 parseFromString rawHtml cfg) \<noteq> None)
   \<and> (error (cleanHtml2 parseFromString rawHtml cfg) \<noteq> None \<longrightarrow>
        html (cleanHtml2 parseFromString rawHtml cfg) = []
      \<and> originalLength (stats (cleanHtml2 parseFromString rawHtml cfg)) = 0
      \<and> finalLength (stats (cleanHtml2 parseFromString rawHtml cfg)) = 0
      \<and> tagsRemoved (stats (cleanHtml2 parseFromString rawHtml cfg)) = 0
      \<and> attributesRemoved (stats (cleanHtml2 parseFromString rawHtml cfg)) = 0)"
proof -
  have one: "error (cleanHtml sanitize parseFromString rawHtml cfg) \<noteq> None
      \<longleftrightarrow> (\<exists>e. tryClean sanitize parseFromString rawHtml cfg = Inl e)"
  proof (cases "tryClean sanitize parseFromString rawHtml cfg")
    case (Inl e)
    then show ?thesis using cleanHtml_failure [OF Inl] by simp
  next
    case (Inr r)
    then show ?thesis using tryClean_success [OF Inr] cleanHtml_success [OF Inr] by simp
  qed
  have two: "error (cleanHtml2 parseFromString rawHtml cfg) \<noteq> None
      \<longleftrightarrow> (\<exists>e. tryClean2 parseFromString rawHtml cfg = Inl e)"
  proof (cases "tryClean2 parseFromString rawHtml cfg")
    case (Inl e)
    then show ?thesis using cleanHtml2_failure [OF Inl] by simp
  next
    case (Inr r)
    then show ?thesis using tryClean2_success [OF Inr] cleanHtml2_success [OF Inr] by simp
  qed
  show ?thesis
    using one two cleanHtml_failure [of sanitize parseFromString rawHtml cfg]
      cleanHtml2_failure [of parseFromString rawHtml cfg] zeroStats_fields
    by auto
qed

text \<open>A parser that throws, and a document holding a \<open>parsererror\<close> element: both runs end in
  the failure result.\<close>

theorem failure_is_contained_with_zero_stats_witness:
  "error (cleanHtml (\<lambda>opts. Inr) (\<lambda>s. Inl (Error (U ''boom''))) (U ''<p>x</p>'')
            \<lparr>useParagraphs = True, aggressiveWhitespace = False\<rparr>) \<noteq> None
   \<and> tagsRemoved (stats (cleanHtml (\<lambda>opts. Inr) (\<lambda>s. Inl (Error (U ''boom''))) (U ''<p>x</p>'')
            \<lparr>useParagraphs = True, aggressiveWhitespace = False\<rparr>)) = 0
   \<and> originalLength (stats (cleanHtml (\<lambda>opts. Inr) (\<lambda>s. Inl (Error (U ''boom''))) (U ''<p>x</p>'')
            \<lparr>useParagraphs = True, aggressiveWhitespace = False\<rparr>)) = 0
   \<and> error (cleanHtml2
            (\<lambda>s. Inr \<lparr>docHead = [], docBody = [Element ''PARSERERROR'' [] [Text s]]\<rparr>)
            (U ''<parsererror>'') \<lparr>useParagraphs = True, aggressiveWhitespace = False\<rparr>)
        \<noteq> None
   \<and> originalLength (stats (cleanHtml2
            (\<lambda>s. Inr \<lparr>docHead = [], docBody = [Element ''PARSERERROR'' [] [Text s]]\<rparr>)
            (U ''<parsererror>'') \<lparr>useParagraphs = True, aggressiveWhitespace = False\<rparr>)) = 0"
proof -
  have a: "tryClean (\<lambda>opts. Inr) (\<lambda>s. Inl (Error (U ''boom''))) (U ''<p>x</p>'')
             \<lparr>useParagraphs = True, aggressiveWhitespace = False\<rparr> = Inl (Error (U ''boom''))"
    by (simp add: tryClean_def)
  have b: "tryClean2 (\<lambda>s. Inr \<lparr>docHead = [], docBody = [Element ''PARSERERROR'' [] [Text s]]\<rparr>)
             (U ''<parsererror>'') \<lparr>useParagraphs = True, aggressiveWhitespace = False\<rparr>
           = Inl (Error (U ''Malformed HTML structure detected.''))"
    by (simp add: tryClean2_def querySelector_def toLowerCase_def toLowerChar_def)
  show ?thesis
    using a b
      failure_is_contained_with_zero_stats
        [of "\<lambda>opts. Inr" "\<lambda>s. Inl (Error (U ''boom''))" "U ''<p>x</p>''"
          "\<lparr>useParagraphs = True, aggressiveWhitespace = False\<rparr>"]
      failure_is_contained_with_zero_stats
        [of _ "\<lambda>s. Inr \<lparr>docHead = [], docBody = [Element ''PARSERERROR'' [] [Text s]]\<rparr>"
          "U ''<parsererror>''" "\<lparr>useParagraphs = True, aggressiveWhitespace = False\<rparr>"]
    by blast
qed

section \<open>The walkers: counters and results\<close>

lemma processNode_ignored:
  "toLowerCase tn \<in> set IGNORE_TAGS
     \<Longrightarrow> processNode cfg ctx (Element tn attrs kids) st
         = (Null, st\<lparr>tagsRemoved := tagsRemoved st + 1\<rparr>)"
  by simp

lemma processNode2_ignored:
  "toLowerCase tn \<in> set IGNORE_TAGS
     \<Longrightarrow> processNode2 cfg plain ctx (Element tn attrs kids) st
         = (Null, st\<lparr>tagsRemoved := tagsRemoved st + 1\<rparr>)"
  by simp

text \<open>The first engine, an element that is kept: the counters are those of the loop over the
  children, started after the style attribute has been counted.\<close>

lemma processNode_kept_counters:
  "toLowerCase tn \<notin> set IGNORE_TAGS
     \<Longrightarrow> snd (processNode cfg ctx (Element tn attrs kids) st)
         = snd (processEach cfg \<lparr>insideListListItem = (toLowerCase tn = ''li'' \<or> insideListListItem ctx)\<rparr>
                  kids []
                  (if hasStyle attrs then st\<lparr>attributesRemoved := attributesRemoved st + 1\<rparr>
                   else st))"
proof -
  have eq: "((case getAttribute attrs ''style'' of None \<Rightarrow> [] | Some v \<Rightarrow> v) \<noteq> []) = hasStyle attrs"
    by (simp add: hasStyle_def split: option.split)
  assume "toLowerCase tn \<notin> set IGNORE_TAGS"
  then show ?thesis
    by (simp add: Let_def eq split: prod.split)
qed

lemma processNode_counters:
  "tagsRemoved (snd (processNode cfg ctx n st)) = tagsRemoved st + discardedCount n
   \<and> attributesRemoved (snd (processNode cfg ctx n st)) = attributesRemoved st + styledCount n"
  and processEach_counters:
  "tagsRemoved (snd (processEach cfg ctx ns fragment st))
     = tagsRemoved st + sum_list (map discardedCount ns)
   \<and> attributesRemoved (snd (processEach cfg ctx ns fragment st))
     = attributesRemoved st + sum_list (map styledCount ns)"
proof (induction cfg ctx n st and cfg ctx ns fragment st rule: processNode_processEach.induct)
  case (1 cfg ctx t st)
  then show ?case by (simp add: Let_def)
next
  case (2 cfg ctx tn attrs kids st)
  show ?case
  proof (cases "toLowerCase tn \<in> set IGNORE_TAGS")
    case True
    then show ?thesis by simp
  next
    case False
    have eq: "((case getAttribute attrs ''style'' of None \<Rightarrow> [] | Some v \<Rightarrow> v) \<noteq> []) = hasStyle attrs"
      by (simp add: hasStyle_def split: option.split)
    from False "2.IH" [OF refl False refl refl refl refl refl refl refl refl]
    show ?thesis
      by (simp only: processNode_kept_counters [OF False] styledCount.simps discardedCount.simps
            False if_False eq) (simp add: eq)
  qed
next
  case (3 cfg ctx st)
  then show ?case by simp
next
  case (4 cfg ctx fragment st)
  then show ?case by simp
next
  case (5 cfg ctx child rest fragment st)
  obtain processed st' where p: "processNode cfg ctx child st = (processed, st')"
    by (cases "processNode cfg ctx child st")
  from "5.IH"(1) p have a:
    "tagsRemoved st' = tagsRemoved st + discardedCount child"
    "attributesRemoved st' = attributesRemoved st + styledCount child"
    by simp_all
  from "5.IH"(2) [OF p [symmetric]] a p show ?case
    by simp
qed

text \<open>What a kept element gives in the first engine, in terms of the loop over its children.\<close>

lemma processNode_kept_result:
  "toLowerCase tn \<notin> set IGNORE_TAGS
     \<Longrightarrow> fst (processNode cfg ctx (Element tn attrs kids) st)
         = (let tagName = toLowerCase tn;
                styleAttr = (case getAttribute attrs ''style'' of None \<Rightarrow> [] | Some v \<Rightarrow> v);
                fragment = fst (processEach cfg
                   \<lparr>insideListListItem = (tagName = ''li'' \<or> insideListListItem ctx)\<rparr> kids []
                   (if hasStyle attrs then st\<lparr>attributesRemoved := attributesRemoved st + 1\<rparr>
                    else st))
            in if fragment = [] \<and> BASE_TAG_MAP tagName \<noteq> Some ''br'' then Null
               else blockWrapper (BASE_TAG_MAP tagName) ctx
                      (visualWrappers (BASE_TAG_MAP tagName) tagName (isBoldStyle styleAttr)
                         (isItalicStyle styleAttr) (isUnderlineStyle styleAttr)
                         (isHeaderTag tagName) (Fragment fragment)))"
proof -
  have eq: "((case getAttribute attrs ''style'' of None \<Rightarrow> [] | Some v \<Rightarrow> v) \<noteq> []) = hasStyle attrs"
    by (simp add: hasStyle_def split: option.split)
  assume "toLowerCase tn \<notin> set IGNORE_TAGS"
  then show ?thesis
    by (simp add: Let_def eq split: prod.split)
qed

lemma processNode_pure_all:
  "\<forall>st'. fst (processNode cfg ctx n st) = fst (processNode cfg ctx n st')"
  and processEach_pure_all:
  "\<forall>st'. fst (processEach cfg ctx ns fragment st) = fst (processEach cfg ctx ns fragment st')"
proof (induction cfg ctx n st and cfg ctx ns fragment st rule: processNode_processEach.induct)
  case (1 cfg ctx t st)
  then show ?case by (simp add: Let_def)
next
  case (2 cfg ctx tn attrs kids st)
  show ?case
  proof (cases "toLowerCase tn \<in> set IGNORE_TAGS")
    case True
    then show ?thesis by simp
  next
    case False
    have eq: "((case getAttribute attrs ''style'' of None \<Rightarrow> [] | Some v \<Rightarrow> v) \<noteq> []) = hasStyle attrs"
      by (simp add: hasStyle_def split: option.split)
    from "2.IH" [OF refl False refl refl refl refl refl refl refl refl]
    have "\<And>s'. fst (processEach cfg
              \<lparr>insideListListItem = (toLowerCase tn = ''li'' \<or> insideListListItem ctx)\<rparr> kids []
              (if hasStyle attrs then st\<lparr>attributesRemoved := attributesRemoved st + 1\<rparr> else st))
          = fst (processEach cfg
              \<lparr>insideListListItem = (toLowerCase tn = ''li'' \<or> insideListListItem ctx)\<rparr> kids []
              s')"
      by (simp add: eq)
    then show ?thesis
      by (simp only: processNode_kept_result [OF False]) metis
  qed
next
  case (3 cfg ctx st)
  then show ?case by simp
next
  case (4 cfg ctx fragment st)
  then show ?case by simp
next
  case (5 cfg ctx child rest fragment st)
  show ?case
  proof
    fix s'
    obtain processed st' where p: "processNode cfg ctx child st = (processed, st')"
      by (cases "processNode cfg ctx child st")
    obtain processed2 st2 where q: "processNode cfg ctx child s' = (processed2, st2)"
      by (cases "processNode cfg ctx child s'")
    from "5.IH"(1) p q have same: "processed2 = processed"
      by (metis fst_conv)
    from "5.IH"(2) [OF p [symmetric]] p q same
    show "fst (processEach cfg ctx (child # rest) fragment st)
        = fst (processEach cfg ctx (child # rest) fragment s')"
      by simp
  qed
qed

lemma processNode_pure: "fst (processNode cfg ctx n st) = fst (processNode cfg ctx n st')"
  using processNode_pure_all by blast

lemma processEach_pure:
  "fst (processEach cfg ctx ns fragment st) = fst (processEach cfg ctx ns fragment st')"
  using processEach_pure_all by blast

text \<open>The loop appends what each child gives, in order.\<close>

lemma appendChild_nodesOf: "appendChild kids p = kids @ nodesOf p"
  by (cases p) simp_all

lemma processEach_concat:
  "fst (processEach cfg ctx ns fragment st)
     = fragment @ concat (map (\<lambda>n. nodesOf (fst (processNode cfg ctx n st0))) ns)"
proof (induction ns arbitrary: fragment st)
  case Nil
  then show ?case by simp
next
  case (Cons child rest)
  obtain processed st' where p: "processNode cfg ctx child st = (processed, st')"
    by (cases "processNode cfg ctx child st")
  have "fst (processNode cfg ctx child st0) = processed"
    using p processNode_pure [of cfg ctx child st0 st] by simp
  then show ?case
    using p Cons.IH by (cases processed) simp_all
qed

lemma processNode_rewritten: "fst (processNode cfg ctx n st) = rewritten cfg ctx n"
  unfolding rewritten_def by (rule processNode_pure)

lemma processEach_rewrittenAll:
  "fst (processEach cfg ctx ns fragment st) = fragment @ rewrittenAll cfg ctx ns"
  unfolding rewrittenAll_def rewritten_def by (rule processEach_concat)

lemma rewritten_Text:
  "rewritten cfg ctx (Text t) =
     (let text = collapseRuns isNewline t;
          text = (if aggressiveWhitespace cfg then collapseRuns isWhiteSpace text else text)
      in if text = [] then Null else Node (OText text))"
  by (simp add: rewritten_def Let_def)

lemma rewritten_Other: "rewritten cfg ctx Other = Null"
  by (simp add: rewritten_def)

lemma rewritten_ignored:
  "toLowerCase tn \<in> set IGNORE_TAGS \<Longrightarrow> rewritten cfg ctx (Element tn attrs kids) = Null"
  by (simp add: rewritten_def)

lemma rewritten_kept:
  "toLowerCase tn \<notin> set IGNORE_TAGS
     \<Longrightarrow> rewritten cfg ctx (Element tn attrs kids)
         = (let tagName = toLowerCase tn;
                styleAttr = (case getAttribute attrs ''style'' of None \<Rightarrow> [] | Some v \<Rightarrow> v);
                fragment = rewrittenAll cfg
                   \<lparr>insideListListItem = (tagName = ''li'' \<or> insideListListItem ctx)\<rparr> kids
            in if fragment = [] \<and> BASE_TAG_MAP tagName \<noteq> Some ''br'' then Null
               else blockWrapper (BASE_TAG_MAP tagName) ctx
                      (visualWrappers (BASE_TAG_MAP tagName) tagName (isBoldStyle styleAttr)
                         (isItalicStyle styleAttr) (isUnderlineStyle styleAttr)
                         (isHeaderTag tagName) (Fragment fragment)))"
  unfolding rewritten_def
  apply (subst processNode_kept_result, assumption)
  apply (simp only: processEach_rewrittenAll append_Nil)
  done

lemma rewrittenAll_Nil: "rewrittenAll cfg ctx [] = []"
  by (simp add: rewrittenAll_def)

lemma rewrittenAll_Cons:
  "rewrittenAll cfg ctx (n # ns) = nodesOf (rewritten cfg ctx n) @ rewrittenAll cfg ctx ns"
  by (simp add: rewrittenAll_def)

section \<open>The second walker: counters\<close>

text \<open>A kept element of the second engine, in terms of the loop over its children.\<close>

lemma processNode2_kept:
  assumes "toLowerCase tn \<notin> set IGNORE_TAGS"
    and "processEach2 cfg plain (toLowerCase tn) (childBaseContext ctx (toLowerCase tn)) kids
           (firstListIndex (toLowerCase tn) attrs)
           (if prefixFor ctx (toLowerCase tn) \<noteq> [] then [OText (prefixFor ctx (toLowerCase tn))]
            else [])
           False st = ((fragment, hasContent), st2)"
  shows "processNode2 cfg plain ctx (Element tn attrs kids) st
     = (let tagName = toLowerCase tn;
            styleAttr = (case getAttribute attrs ''style'' of None \<Rightarrow> [] | Some v \<Rightarrow> v);
            targetTag = targetTagFor ctx tagName
        in if \<not> hasContent \<and> targetTag \<noteq> Some ''br'' \<and> tagName \<noteq> ''td'' then (Null, st2)
           else
             (blockWrapper2 targetTag
                (visualWrappers targetTag tagName (isBoldStyle styleAttr)
                   (isItalicStyle styleAttr) (isUnderlineStyle styleAttr) (isHeaderTag tagName)
                   (Fragment fragment)),
              st2))"
  using assms by (simp add: Let_def)

lemma processNode2_kept_counters:
  assumes "toLowerCase tn \<notin> set IGNORE_TAGS"
  shows "snd (processNode2 cfg plain ctx (Element tn attrs kids) st)
     = snd (processEach2 cfg plain (toLowerCase tn) (childBaseContext ctx (toLowerCase tn)) kids
           (firstListIndex (toLowerCase tn) attrs)
           (if prefixFor ctx (toLowerCase tn) \<noteq> [] then [OText (prefixFor ctx (toLowerCase tn))]
            else [])
           False st)"
proof -
  obtain fragment hasContent st2 where
    e: "processEach2 cfg plain (toLowerCase tn) (childBaseContext ctx (toLowerCase tn)) kids
           (firstListIndex (toLowerCase tn) attrs)
           (if prefixFor ctx (toLowerCase tn) \<noteq> [] then [OText (prefixFor ctx (toLowerCase tn))]
            else [])
           False st = ((fragment, hasContent), st2)"
    by (metis prod.exhaust)
  show ?thesis
    by (simp only: processNode2_kept [OF assms e] e Let_def snd_conv if_distrib [of snd] if_cancel)
qed

lemma processNode2_counters:
  "tagsRemoved (snd (processNode2 cfg plain ctx n st)) = tagsRemoved st + discardedCount n
   \<and> attributesRemoved (snd (processNode2 cfg plain ctx n st)) = attributesRemoved st"
  and processEach2_counters:
  "tagsRemoved (snd (processEach2 cfg plain tagName base ns idx fragment hasContent st))
     = tagsRemoved st + sum_list (map discardedCount ns)
   \<and> attributesRemoved (snd (processEach2 cfg plain tagName base ns idx fragment hasContent st))
     = attributesRemoved st"
proof (induction cfg plain ctx n st and cfg plain tagName base ns idx fragment hasContent st
       rule: processNode2_processEach2.induct)
  case (1 cfg plain ctx t st)
  then show ?case by (simp add: Let_def)
next
  case (2 cfg plain ctx tn attrs kids st)
  show ?case
  proof (cases "toLowerCase tn \<in> set IGNORE_TAGS")
    case True
    then show ?thesis by simp
  next
    case False
    from "2.IH" [OF refl False refl refl refl refl refl refl refl refl refl]
    show ?thesis
      by (simp only: processNode2_kept_counters [OF False] discardedCount.simps False if_False)
  qed
next
  case (3 cfg plain ctx st)
  then show ?case by simp
next
  case (4 cfg plain tagName base idx fragment hasContent st)
  then show ?case by simp
next
  case (5 cfg plain tagName base child rest idx fragment hasContent st)
  define indexed where "indexed = (tagName = ''ol'' \<and> toLowerCase (nodeName child) = ''li'')"
  define childContext where
    "childContext = (if indexed then base\<lparr>listIndex := Some idx\<rparr> else base)"
  define idx' where "idx' = (if indexed then idx + 1 else idx)"
  obtain processed st' where
    p: "processNode2 cfg plain childContext child st = (processed, st')"
    by (cases "processNode2 cfg plain childContext child st")
  from "5.IH"(1) [OF indexed_def childContext_def] p have a:
    "tagsRemoved st' = tagsRemoved st + discardedCount child"
    "attributesRemoved st' = attributesRemoved st"
    by simp_all
  show ?case
  proof (cases processed)
    case Null
    from "5.IH"(2) [OF indexed_def childContext_def idx'_def p [symmetric] Null] a p Null
    show ?thesis
      by (simp add: Let_def indexed_def childContext_def idx'_def)
  next
    case (Node x)
    from "5.IH"(3) [OF indexed_def childContext_def idx'_def p [symmetric] Node refl] a p Node
    show ?thesis
      by (simp add: Let_def indexed_def childContext_def idx'_def)
  next
    case (Fragment xs)
    from "5.IH"(4) [OF indexed_def childContext_def idx'_def p [symmetric] Fragment refl] a p Fragment
    show ?thesis
      by (simp add: Let_def indexed_def childContext_def idx'_def)
  qed
qed

section \<open>The two engines as functions of the parsed document\<close>

lemma cleanHtml_document:
  assumes "sanitize engineOptions rawHtml = Inr cleanInput"
    and "parseFromString cleanInput = Inr doc"
    and "\<not> querySelector doc ''parsererror''"
  shows "cleanHtml sanitize parseFromString rawHtml cfg =
    \<lparr>html = postProcess cfg (rewrittenAll cfg topContext (docBody doc)),
     stats = \<lparr>tagsRemoved = sum_list (map discardedCount (docBody doc)),
              attributesRemoved = sum_list (map styledCount (docBody doc)),
              originalLength = length rawHtml,
              finalLength = length (postProcess cfg (rewrittenAll cfg topContext (docBody doc)))\<rparr>,
     error = None\<rparr>"
proof -
  obtain resultFragment st where
    e: "processEach cfg \<lparr>insideListListItem = False\<rparr> (docBody doc) []
          \<lparr>tagsRemoved = 0, attributesRemoved = 0\<rparr> = (resultFragment, st)"
    by (metis prod.exhaust)
  have f: "resultFragment = rewrittenAll cfg topContext (docBody doc)"
    using processEach_rewrittenAll [of cfg "\<lparr>insideListListItem = False\<rparr>" "docBody doc" "[]"
        "\<lparr>tagsRemoved = 0, attributesRemoved = 0\<rparr>"] e
    by (simp add: topContext_def)
  have c: "tagsRemoved st = sum_list (map discardedCount (docBody doc))"
    "attributesRemoved st = sum_list (map styledCount (docBody doc))"
    using processEach_counters [of cfg "\<lparr>insideListListItem = False\<rparr>" "docBody doc" "[]"
        "\<lparr>tagsRemoved = 0, attributesRemoved = 0\<rparr>"] e
    by simp_all
  show ?thesis
    using assms e
    by (simp add: cleanHtml_def tryClean_def engineOptions_def postProcess_def Let_def f [symmetric] c)
qed

lemma cleanHtml2_document:
  assumes "parseFromString rawHtml = Inr doc"
    and "\<not> querySelector doc ''parsererror''"
    and "processBody2 cfg (treatAsPlainText (docBody doc)) (docBody doc) []
           \<lparr>tagsRemoved = 0, attributesRemoved = 0\<rparr> = (resultFragment, st)"
  shows "cleanHtml2 parseFromString rawHtml cfg =
    \<lparr>html = regexCleanup cfg (treatAsPlainText (docBody doc)) (innerHTML resultFragment),
     stats = \<lparr>tagsRemoved = tagsRemoved st,
              attributesRemoved = attributesRemoved st,
              originalLength = length rawHtml,
              finalLength = length (regexCleanup cfg (treatAsPlainText (docBody doc))
                                      (innerHTML resultFragment))\<rparr>,
     error = None\<rparr>"
  using assms by (simp add: cleanHtml2_def tryClean2_def Let_def)

lemma processBody2_counters:
  "tagsRemoved (snd (processBody2 cfg plain ns fragment st))
     = tagsRemoved st + sum_list (map discardedCount ns)
   \<and> attributesRemoved (snd (processBody2 cfg plain ns fragment st)) = attributesRemoved st"
proof (induction ns arbitrary: fragment st)
  case Nil
  then show ?case by simp
next
  case (Cons n ns)
  obtain processed st' where
    p: "processNode2 cfg plain
          \<lparr>insideListListItem = False, parentListType = None, listIndex = None\<rparr> n st
        = (processed, st')"
    by (metis prod.exhaust)
  from processNode2_counters [of cfg plain _ n st] p
  have "tagsRemoved st' = tagsRemoved st + discardedCount n"
    "attributesRemoved st' = attributesRemoved st"
    by (metis snd_conv)+
  then show ?case
    using p Cons.IH by simp
qed

section \<open>Accounting of discarded attributes\<close>

text \<open>
  The first engine counts every kept element with a non-empty \<open>style\<close> attribute once: the
  counter of a successful run is the number of such elements met by the walker.
\<close>

lemma first_engine_counts_styled_elements:
  assumes "sanitize engineOptions rawHtml = Inr cleanInput"
    and "parseFromString cleanInput = Inr doc"
    and "\<not> querySelector doc ''parsererror''"
  shows "attributesRemoved (stats (cleanHtml sanitize parseFromString rawHtml cfg))
           = sum_list (map styledCount (docBody doc))"
  using assms by (simp add: cleanHtml_document)

text \<open>The second engine never touches its counter of attributes.\<close>

lemma second_engine_counts_no_attribute:
  "attributesRemoved (stats (cleanHtml2 parseFromString rawHtml cfg)) = 0"
proof (cases "tryClean2 parseFromString rawHtml cfg")
  case (Inl e)
  then show ?thesis by (simp add: cleanHtml2_def zeroStats_def)
next
  case (Inr r)
  then obtain doc where d: "parseFromString rawHtml = Inr doc"
      "\<not> querySelector doc ''parsererror''"
    by (auto simp: tryClean2_def split: sum.splits if_splits)
  obtain resultFragment st where
    e: "processBody2 cfg (treatAsPlainText (docBody doc)) (docBody doc) []
           \<lparr>tagsRemoved = 0, attributesRemoved = 0\<rparr> = (resultFragment, st)"
    by (metis prod.exhaust)
  have "attributesRemoved st = 0"
    using processBody2_counters [of cfg "treatAsPlainText (docBody doc)" "docBody doc" "[]"
        "\<lparr>tagsRemoved = 0, attributesRemoved = 0\<rparr>"] e
    by simp
  then show ?thesis
    using d e by (simp add: cleanHtml2_document)
qed

text \<open>
  Claim C9, on the tree of \<open><p style="color:red">x</p>\<close>.  The element is kept and its style
  attribute is not empty, so the counter should be 1.  The first engine reports 1, the second
  engine reports 0; neither output carries the attribute.
\<close>

theorem second_engine_misses_style_attribute:
  "attributesRemoved (stats (cleanHtml (\<lambda>opts. Inr)
       (\<lambda>s. Inr \<lparr>docHead = [],
                 docBody = [Element ''P'' [(''style'', U ''color:red'')] [Text (U ''x'')]]\<rparr>)
       (U ''<p style=\"color:red\">x</p>'')
       \<lparr>useParagraphs = True, aggressiveWhitespace = False\<rparr>)) = 1
   \<and> html (cleanHtml (\<lambda>opts. Inr)
       (\<lambda>s. Inr \<lparr>docHead = [],
                 docBody = [Element ''P'' [(''style'', U ''color:red'')] [Text (U ''x'')]]\<rparr>)
       (U ''<p style=\"color:red\">x</p>'')
       \<lparr>useParagraphs = True, aggressiveWhitespace = False\<rparr>) = U ''<p>x</p>''
   \<and> attributesRemoved (stats (cleanHtml2
       (\<lambda>s. Inr \<lparr>docHead = [],
                 docBody = [Element ''P'' [(''style'', U ''color:red'')] [Text (U ''x'')]]\<rparr>)
       (U ''<p style=\"color:red\">x</p>'')
       \<lparr>useParagraphs = True, aggressiveWhitespace = False\<rparr>)) = 0
   \<and> html (cleanHtml2
       (\<lambda>s. Inr \<lparr>docHead = [],
                 docBody = [Element ''P'' [(''style'', U ''color:red'')] [Text (U ''x'')]]\<rparr>)
       (U ''<p style=\"color:red\">x</p>'')
       \<lparr>useParagraphs = True, aggressiveWhitespace = False\<rparr>) = U ''<p>x</p>''
   \<and> error (cleanHtml2
       (\<lambda>s. Inr \<lparr>docHead = [],
                 docBody = [Element ''P'' [(''style'', U ''color:red'')] [Text (U ''x'')]]\<rparr>)
       (U ''<p style=\"color:red\">x</p>'')
       \<lparr>useParagraphs = True, aggressiveWhitespace = False\<rparr>) = None"
proof -
  let ?cfg = "\<lparr>useParagraphs = True, aggressiveWhitespace = False\<rparr>"
  let ?body = "[Element ''P'' [(''style'', U ''color:red'')] [Text (U ''x'')]]"
  let ?doc = "\<lparr>docHead = [], docBody = ?body\<rparr>"
  have q: "\<not> querySelector ?doc ''parsererror''"
    by (simp add: querySelector_def toLowerCase_def toLowerChar_def)
  have w: "rewrittenAll ?cfg topContext ?body = [OElement ''p'' [] [OText (U ''x'')]]"
    by (simp del: let_rules
        add: rewrittenAll_def rewritten_def topContext_def walker_rules string_rules)
  have s: "sum_list (map styledCount ?body) = 1"
    by (simp add: hasStyle_def walker_rules string_rules)
  have p: "postProcess ?cfg [OElement ''p'' [] [OText (U ''x'')]] = U ''<p>x</p>''"
    by (simp del: let_rules add: postProcess_def output_rules string_rules)
  have one: "cleanHtml (\<lambda>opts. Inr) (\<lambda>s. Inr ?doc) (U ''<p style=\"color:red\">x</p>'') ?cfg
      = \<lparr>html = U ''<p>x</p>'',
         stats = \<lparr>tagsRemoved = sum_list (map discardedCount ?body), attributesRemoved = 1,
                  originalLength = length (U ''<p style=\"color:red\">x</p>''),
                  finalLength = length (U ''<p>x</p>'')\<rparr>,
         error = None\<rparr>"
    using cleanHtml_document [of "\<lambda>opts. Inr" "U ''<p style=\"color:red\">x</p>''" _
        "\<lambda>s. Inr ?doc" ?doc ?cfg] q
    by (simp only: w s p document.simps) simp
  have plain: "\<not> treatAsPlainText ?body"
    by (simp add: treatAsPlainText_def walker_rules)
  have w2: "processBody2 ?cfg False ?body [] \<lparr>tagsRemoved = 0, attributesRemoved = 0\<rparr>
      = ([OElement ''p'' [] [OText (U ''x'')]], \<lparr>tagsRemoved = 0, attributesRemoved = 0\<rparr>)"
    by (simp del: let_rules add: walker_rules string_rules)
  have p2: "regexCleanup ?cfg False (innerHTML [OElement ''p'' [] [OText (U ''x'')]])
      = U ''<p>x</p>''"
    by (simp add: output_rules pattern_rules string_rules)
  have two: "cleanHtml2 (\<lambda>s. Inr ?doc) (U ''<p style=\"color:red\">x</p>'') ?cfg
      = \<lparr>html = U ''<p>x</p>'',
         stats = \<lparr>tagsRemoved = 0, attributesRemoved = 0,
                  originalLength = length (U ''<p style=\"color:red\">x</p>''),
                  finalLength = length (U ''<p>x</p>'')\<rparr>,
         error = None\<rparr>"
    using cleanHtml2_document [of "\<lambda>s. Inr ?doc" "U ''<p style=\"color:red\">x</p>''" ?doc
        ?cfg "[OElement ''p'' [] [OText (U ''x'')]]" "\<lparr>tagsRemoved = 0, attributesRemoved = 0\<rparr>"]
      q plain w2 p2
    by simp
  show ?thesis
    by (simp only: one two) simp
qed

section \<open>Discarded subtrees\<close>

lemma no_parsererror_example:
  "\<not> querySelector
       \<lparr>docHead = [], docBody = [Element ''SCRIPT'' [] [Text (U ''alert(1)'')],
                                Text (U ''Safe text'')]\<rparr> ''parsererror''"
  by (simp add: querySelector_def toLowerCase_def toLowerChar_def)

lemma script_example_first_engine:
  "rewrittenAll cfg topContext [Element ''SCRIPT'' [] [Text (U ''alert(1)'')], Text (U ''Safe text'')]
     = [OText (U ''Safe text'')]"
  by (cases "aggressiveWhitespace cfg")
    (simp_all del: let_rules
      add: rewrittenAll_def rewritten_def topContext_def walker_rules string_rules)

lemma script_example_count:
  "sum_list (map discardedCount
      [Element ''SCRIPT'' [] [Text (U ''alert(1)'')], Text (U ''Safe text'')]) = 1"
  by (simp add: walker_rules)

lemma safe_text_postProcess: "postProcess cfg [OText (U ''Safe text'')] = U ''Safe text''"
  by (cases "useParagraphs cfg")
    (simp_all del: let_rules add: postProcess_def output_rules string_rules)

lemma script_example_second_engine:
  "processBody2 cfg plain [Element ''SCRIPT'' [] [Text (U ''alert(1)'')], Text (U ''Safe text'')] []
       \<lparr>tagsRemoved = 0, attributesRemoved = 0\<rparr>
     = ([OText (U ''Safe text'')], \<lparr>tagsRemoved = 1, attributesRemoved = 0\<rparr>)"
  by (cases plain; cases "aggressiveWhitespace cfg")
    (simp_all del: let_rules add: walker_rules string_rules)

lemma safe_text_regexCleanup:
  "regexCleanup cfg plain (innerHTML [OText (U ''Safe text'')]) = U ''Safe text''"
proof -
  have "innerHTML [OText (U ''Safe text'')] = U ''Safe text''"
    by (simp add: output_rules string_rules)
  then show ?thesis
    by (cases plain; cases "useParagraphs cfg") (simp_all add: pattern_rules string_rules)
qed

text \<open>
  Claim C3, as amended.  An element that reaches the walker with a tag of the discard class
  gives \<open>null\<close> whatever its children are, and the counter of removed tags goes up by one
  (the counter of attributes stays); both engines.  When the parsed body is a \<open>script\<close>
  element holding \<open>alert(1)\<close> followed by the text \<open>Safe text\<close>, the output is exactly
  \<open>Safe text\<close> and one tag is reported as removed.
\<close>

theorem discarded_subtree_gives_nothing_and_counts_once:
  "(toLowerCase tn \<in> set IGNORE_TAGS \<longrightarrow>
      processNode cfg ctx (Element tn attrs kids) st
        = (Null, st\<lparr>tagsRemoved := tagsRemoved st + 1\<rparr>)
    \<and> processNode2 cfg plain ctx2 (Element tn attrs kids) st
        = (Null, st\<lparr>tagsRemoved := tagsRemoved st + 1\<rparr>))
   \<and> (sanitize engineOptions rawHtml = Inr cleanInput \<and> parseFromString cleanInput = Inr doc
      \<and> docHead doc = []
      \<and> docBody doc = [Element ''SCRIPT'' [] [Text (U ''alert(1)'')], Text (U ''Safe text'')]
      \<longrightarrow> html (cleanHtml sanitize parseFromString rawHtml cfg) = U ''Safe text''
        \<and> tagsRemoved (stats (cleanHtml sanitize parseFromString rawHtml cfg)) = 1
        \<and> error (cleanHtml sanitize parseFromString rawHtml cfg) = None)
   \<and> (parseFromString rawHtml = Inr doc \<and> docHead doc = []
      \<and> docBody doc = [Element ''SCRIPT'' [] [Text (U ''alert(1)'')], Text (U ''Safe text'')]
      \<longrightarrow> html (cleanHtml2 parseFromString rawHtml cfg) = U ''Safe text''
        \<and> tagsRemoved (stats (cleanHtml2 parseFromString rawHtml cfg)) = 1
        \<and> error (cleanHtml2 parseFromString rawHtml cfg) = None)"
proof (intro conjI impI)
  assume "toLowerCase tn \<in> set IGNORE_TAGS"
  then show "processNode cfg ctx (Element tn attrs kids) st
        = (Null, st\<lparr>tagsRemoved := tagsRemoved st + 1\<rparr>)"
    by (rule processNode_ignored)
next
  assume "toLowerCase tn \<in> set IGNORE_TAGS"
  then show "processNode2 cfg plain ctx2 (Element tn attrs kids) st
        = (Null, st\<lparr>tagsRemoved := tagsRemoved st + 1\<rparr>)"
    by (rule processNode2_ignored)
next
  assume a: "sanitize engineOptions rawHtml = Inr cleanInput \<and> parseFromString cleanInput = Inr doc
      \<and> docHead doc = []
      \<and> docBody doc = [Element ''SCRIPT'' [] [Text (U ''alert(1)'')], Text (U ''Safe text'')]"
  then have q: "\<not> querySelector doc ''parsererror''"
    by (simp add: querySelector_def toLowerCase_def toLowerChar_def)
  from a have a1: "sanitize engineOptions rawHtml = Inr cleanInput"
    and a2: "parseFromString cleanInput = Inr doc"
    and a4: "docBody doc = [Element ''SCRIPT'' [] [Text (U ''alert(1)'')], Text (U ''Safe text'')]"
    by simp_all
  have r: "cleanHtml sanitize parseFromString rawHtml cfg =
      \<lparr>html = U ''Safe text'',
       stats = \<lparr>tagsRemoved = 1, attributesRemoved = sum_list (map styledCount (docBody doc)),
                originalLength = length rawHtml, finalLength = length (U ''Safe text'')\<rparr>,
       error = None\<rparr>"
    unfolding cleanHtml_document [of sanitize rawHtml cleanInput parseFromString doc cfg,
        OF a1 a2 q]
    by (simp only: a4 script_example_first_engine script_example_count safe_text_postProcess)
  show "html (cleanHtml sanitize parseFromString rawHtml cfg) = U ''Safe text''"
    "tagsRemoved (stats (cleanHtml sanitize parseFromString rawHtml cfg)) = 1"
    "error (cleanHtml sanitize parseFromString rawHtml cfg) = None"
    by (simp_all only: r conversion.simps counters.simps)
next
  assume a: "parseFromString rawHtml = Inr doc \<and> docHead doc = []
      \<and> docBody doc = [Element ''SCRIPT'' [] [Text (U ''alert(1)'')], Text (U ''Safe text'')]"
  then have q: "\<not> querySelector doc ''parsererror''"
    by (simp add: querySelector_def toLowerCase_def toLowerChar_def)
  from a have a1: "parseFromString rawHtml = Inr doc"
    and a4: "docBody doc = [Element ''SCRIPT'' [] [Text (U ''alert(1)'')], Text (U ''Safe text'')]"
    by simp_all
  have w: "processBody2 cfg (treatAsPlainText (docBody doc)) (docBody doc) []
       \<lparr>tagsRemoved = 0, attributesRemoved = 0\<rparr>
     = ([OText (U ''Safe text'')], \<lparr>tagsRemoved = 1, attributesRemoved = 0\<rparr>)"
    unfolding a4 by (rule script_example_second_engine)
  have r: "cleanHtml2 parseFromString rawHtml cfg =
      \<lparr>html = U ''Safe text'',
       stats = \<lparr>tagsRemoved = 1, attributesRemoved = 0,
                originalLength = length rawHtml, finalLength = length (U ''Safe text'')\<rparr>,
       error = None\<rparr>"
    unfolding cleanHtml2_document [of parseFromString rawHtml doc cfg "[OText (U ''Safe text'')]"
        "\<lparr>tagsRemoved = 1, attributesRemoved = 0\<rparr>", OF a1 q w]
    by (simp only: safe_text_regexCleanup counters.simps)
  show "html (cleanHtml2 parseFromString rawHtml cfg) = U ''Safe text''"
    "tagsRemoved (stats (cleanHtml2 parseFromString rawHtml cfg)) = 1"
    "error (cleanHtml2 parseFromString rawHtml cfg) = None"
    by (simp_all only: r conversion.simps counters.simps)
qed

theorem discarded_subtree_gives_nothing_and_counts_once_witness:
  "toLowerCase ''SCRIPT'' \<in> set IGNORE_TAGS
   \<and> processNode \<lparr>useParagraphs = True, aggressiveWhitespace = False\<rparr> topContext
        (Element ''SCRIPT'' [] [Text (U ''alert(1)'')]) \<lparr>tagsRemoved = 0, attributesRemoved = 0\<rparr>
      = (Null, \<lparr>tagsRemoved = 1, attributesRemoved = 0\<rparr>)
   \<and> html (cleanHtml (\<lambda>opts. Inr)
        (\<lambda>s. Inr \<lparr>docHead = [], docBody = [Element ''SCRIPT'' [] [Text (U ''alert(1)'')],
                                             Text (U ''Safe text'')]\<rparr>)
        (U ''<b></b><script>alert(1)</script>Safe text'')
        \<lparr>useParagraphs = True, aggressiveWhitespace = False\<rparr>) = U ''Safe text''
   \<and> tagsRemoved (stats (cleanHtml (\<lambda>opts. Inr)
        (\<lambda>s. Inr \<lparr>docHead = [], docBody = [Element ''SCRIPT'' [] [Text (U ''alert(1)'')],
                                             Text (U ''Safe text'')]\<rparr>)
        (U ''<b></b><script>alert(1)</script>Safe text'')
        \<lparr>useParagraphs = True, aggressiveWhitespace = False\<rparr>)) = 1
   \<and> tagsRemoved (stats (cleanHtml2
        (\<lambda>s. Inr \<lparr>docHead = [], docBody = [Element ''SCRIPT'' [] [Text (U ''alert(1)'')],
                                             Text (U ''Safe text'')]\<rparr>)
        (U ''<b></b><script>alert(1)</script>Safe text'')
        \<lparr>useParagraphs = True, aggressiveWhitespace = False\<rparr>)) = 1"
proof -
  have i: "toLowerCase ''SCRIPT'' \<in> set IGNORE_TAGS"
    by (simp add: toLowerCase_def toLowerChar_def IGNORE_TAGS_def)
  show ?thesis
    using i discarded_subtree_gives_nothing_and_counts_once
      [where tn = "''SCRIPT''" and st = "\<lparr>tagsRemoved = 0, attributesRemoved = 0\<rparr>"
        and attrs = "[]" and kids = "[Text (U ''alert(1)'')]" and ctx = topContext
        and cfg = "\<lparr>useParagraphs = True, aggressiveWhitespace = False\<rparr>"
        and sanitize = "\<lambda>opts. Inr"
        and rawHtml = "U ''<b></b><script>alert(1)</script>Safe text''"
        and cleanInput = "U ''<b></b><script>alert(1)</script>Safe text''"
        and parseFromString =
          "\<lambda>s. Inr \<lparr>docHead = [], docBody = [Element ''SCRIPT'' [] [Text (U ''alert(1)'')],
                                              Text (U ''Safe text'')]\<rparr>"
        and doc = "\<lparr>docHead = [], docBody = [Element ''SCRIPT'' [] [Text (U ''alert(1)'')],
                                         Text (U ''Safe text'')]\<rparr>"]
    by simp
qed

text \<open>
  The claim as it stands fails on the very input of the example.  The first engine asks the
  sanitizer to forbid \<open>script\<close>, so the element is gone before the walker runs; the second
  engine walks the body, and the parser has put the \<open>script\<close> element into the head.  The
  output is \<open>Safe text\<close> in both, and no tag is reported as removed.
\<close>

theorem script_example_reports_no_removed_tag:
  "html (cleanHtml examplePurify exampleParse (U ''<script>alert(1)</script>Safe text'')
           \<lparr>useParagraphs = True, aggressiveWhitespace = False\<rparr>) = U ''Safe text''
   \<and> error (cleanHtml examplePurify exampleParse (U ''<script>alert(1)</script>Safe text'')
           \<lparr>useParagraphs = True, aggressiveWhitespace = False\<rparr>) = None
   \<and> \<not> 1 \<le> tagsRemoved (stats (cleanHtml examplePurify exampleParse
           (U ''<script>alert(1)</script>Safe text'')
           \<lparr>useParagraphs = True, aggressiveWhitespace = False\<rparr>))
   \<and> html (cleanHtml2 exampleParse (U ''<script>alert(1)</script>Safe text'')
           \<lparr>useParagraphs = True, aggressiveWhitespace = False\<rparr>) = U ''Safe text''
   \<and> \<not> 1 \<le> tagsRemoved (stats (cleanHtml2 exampleParse
           (U ''<script>alert(1)</script>Safe text'')
           \<lparr>useParagraphs = True, aggressiveWhitespace = False\<rparr>))"
proof -
  let ?cfg = "\<lparr>useParagraphs = True, aggressiveWhitespace = False\<rparr>"
  let ?raw = "U ''<script>alert(1)</script>Safe text''"
  let ?doc1 = "\<lparr>docHead = [], docBody = [Text (U ''Safe text'')]\<rparr>"
  let ?doc2 = "\<lparr>docHead = [Element ''SCRIPT'' [] [Text (U ''alert(1)'')]],
               docBody = [Text (U ''Safe text'')]\<rparr>"
  have s: "examplePurify engineOptions ?raw = Inr (U ''Safe text'')"
    by (simp add: examplePurify_def engineOptions_def)
  have p1: "exampleParse (U ''Safe text'') = Inr ?doc1"
    by (simp add: exampleParse_def U_def)
  have p2: "exampleParse ?raw = Inr ?doc2"
    by (simp add: exampleParse_def U_def)
  have q1: "\<not> querySelector ?doc1 ''parsererror''"
    by (simp add: querySelector_def)
  have q2: "\<not> querySelector ?doc2 ''parsererror''"
    by (simp add: querySelector_def toLowerCase_def toLowerChar_def)
  have w1: "rewrittenAll ?cfg topContext [Text (U ''Safe text'')] = [OText (U ''Safe text'')]"
    by (simp del: let_rules
        add: rewrittenAll_def rewritten_def topContext_def walker_rules string_rules)
  have one: "cleanHtml examplePurify exampleParse ?raw ?cfg =
      \<lparr>html = U ''Safe text'',
       stats = \<lparr>tagsRemoved = 0, attributesRemoved = 0, originalLength = length ?raw,
                finalLength = length (U ''Safe text'')\<rparr>,
       error = None\<rparr>"
    unfolding cleanHtml_document [of examplePurify ?raw "U ''Safe text''" exampleParse ?doc1 ?cfg,
        OF s p1 q1]
    by (simp add: w1 safe_text_postProcess)
  have plain: "treatAsPlainText [Text (U ''Safe text'')]"
    by (simp add: treatAsPlainText_def string_rules)
  have w2: "processBody2 ?cfg (treatAsPlainText (docBody ?doc2)) (docBody ?doc2) []
        \<lparr>tagsRemoved = 0, attributesRemoved = 0\<rparr>
      = ([OText (U ''Safe text'')], \<lparr>tagsRemoved = 0, attributesRemoved = 0\<rparr>)"
    by (simp del: let_rules add: plain walker_rules string_rules)
  have two: "cleanHtml2 exampleParse ?raw ?cfg =
      \<lparr>html = U ''Safe text'',
       stats = \<lparr>tagsRemoved = 0, attributesRemoved = 0, originalLength = length ?raw,
                finalLength = length (U ''Safe text'')\<rparr>,
       error = None\<rparr>"
    unfolding cleanHtml2_document [of exampleParse ?raw ?doc2 ?cfg "[OText (U ''Safe text'')]"
        "\<lparr>tagsRemoved = 0, attributesRemoved = 0\<rparr>", OF p2 q2 w2]
    by (simp add: safe_text_regexCleanup)
  show ?thesis
    by (simp only: one two) simp
qed

section \<open>The emptiness rule\<close>

lemma BASE_TAG_MAP_br:
  "BASE_TAG_MAP t = Some ''br'' \<longleftrightarrow> t \<in> {''br'', ''hr'', ''dd'', ''tr''}"
  by (simp add: BASE_TAG_MAP_def)

lemma br_mapped_is_kept: "BASE_TAG_MAP t = Some ''br'' \<Longrightarrow> t \<notin> set IGNORE_TAGS"
  by (auto simp: BASE_TAG_MAP_br IGNORE_TAGS_def)

lemma first_engine_empty_element:
  assumes "childFragment cfg ctx tn kids = []" and "BASE_TAG_MAP (toLowerCase tn) \<noteq> Some ''br''"
  shows "fst (processNode cfg ctx (Element tn attrs kids) st) = Null"
proof (cases "toLowerCase tn \<in> set IGNORE_TAGS")
  case True
  then show ?thesis by simp
next
  case False
  show ?thesis
    using assms
    by (simp only: processNode_rewritten rewritten_kept [OF False] Let_def childFragment_def)
      simp
qed

lemma first_engine_break_element:
  assumes "BASE_TAG_MAP (toLowerCase tn) = Some ''br''"
  shows "fst (processNode cfg ctx (Element tn attrs kids) st) = Node (OElement ''br'' [] [])"
  using assms
  by (simp only: processNode_rewritten rewritten_kept [OF br_mapped_is_kept [OF assms]] Let_def)
    (simp add: blockWrapper_def createElement_def)

text \<open>The second walker never returns an empty fragment, and its loop only extends the
  fragment it is given; it reports content only if it was told so or has appended
  something.\<close>

lemma visualWrappers_cases:
  "visualWrappers t n b i u h (Fragment f) = Fragment f
   \<or> (\<exists>x. visualWrappers t n b i u h (Fragment f) = Node x)"
  by (simp add: visualWrappers_def wrap_def Let_def)

lemma blockWrapper2_not_empty: "w \<noteq> Fragment [] \<Longrightarrow> blockWrapper2 t w \<noteq> Fragment []"
  by (simp add: blockWrapper2_def wrap_def appendChild_nodesOf createElement_def)

lemma processNode2_not_empty_fragment:
  "fst (processNode2 cfg plain ctx n st) \<noteq> Fragment []"
  and processEach2_extends:
  "\<exists>more. fst (fst (processEach2 cfg plain tagName base ns idx fragment hasContent st))
             = fragment @ more
         \<and> (snd (fst (processEach2 cfg plain tagName base ns idx fragment hasContent st))
              \<longrightarrow> hasContent \<or> more \<noteq> [])"
proof (induction cfg plain ctx n st and cfg plain tagName base ns idx fragment hasContent st
       rule: processNode2_processEach2.induct)
  case (1 cfg plain ctx t st)
  then show ?case by (simp add: Let_def)
next
  case (2 cfg plain ctx tn attrs kids st)
  show ?case
  proof (cases "toLowerCase tn \<in> set IGNORE_TAGS")
    case True
    then show ?thesis by simp
  next
    case False
    let ?t = "toLowerCase tn"
    let ?f0 = "if prefixFor ctx ?t \<noteq> [] then [OText (prefixFor ctx ?t)] else []"
    obtain fragment hasContent st2 where
      e: "processEach2 cfg plain ?t (childBaseContext ctx ?t) kids (firstListIndex ?t attrs) ?f0
            False st = ((fragment, hasContent), st2)"
      by (metis prod.exhaust)
    from "2.IH" [OF refl False refl refl refl refl refl refl refl refl refl] e
    obtain more where m: "fragment = ?f0 @ more" "hasContent \<longrightarrow> more \<noteq> []"
      by auto
    have td: "?t = ''td'' \<Longrightarrow> ?f0 \<noteq> []"
      by (simp add: prefixFor_def U_def)
    have ne: "hasContent \<or> ?t = ''td'' \<Longrightarrow> fragment \<noteq> []"
      using m td by auto
    define w where "w = visualWrappers (targetTagFor ctx ?t) ?t
        (isBoldStyle (case getAttribute attrs ''style'' of None \<Rightarrow> [] | Some v \<Rightarrow> v))
        (isItalicStyle (case getAttribute attrs ''style'' of None \<Rightarrow> [] | Some v \<Rightarrow> v))
        (isUnderlineStyle (case getAttribute attrs ''style'' of None \<Rightarrow> [] | Some v \<Rightarrow> v))
        (isHeaderTag ?t) (Fragment fragment)"
    have w: "hasContent \<or> ?t = ''td'' \<Longrightarrow> w \<noteq> Fragment []"
      using ne visualWrappers_cases [of "targetTagFor ctx ?t" ?t _ _ _ _ fragment]
      unfolding w_def by (metis produced.distinct(5) produced.inject(2))
    have br: "targetTagFor ctx ?t = Some ''br'' \<Longrightarrow> blockWrapper2 (targetTagFor ctx ?t) w \<noteq> Fragment []"
      by (simp add: blockWrapper2_def appendChild_nodesOf createElement_def)
    have "fst (processNode2 cfg plain ctx (Element tn attrs kids) st)
        = (if \<not> hasContent \<and> targetTagFor ctx ?t \<noteq> Some ''br'' \<and> ?t \<noteq> ''td'' then Null
           else blockWrapper2 (targetTagFor ctx ?t) w)"
      by (simp only: processNode2_kept [OF False e] Let_def w_def if_distrib [of fst] fst_conv)
    then show ?thesis
      using w br blockWrapper2_not_empty [of w "targetTagFor ctx ?t"] by auto
  qed
next
  case (3 cfg plain ctx st)
  then show ?case by simp
next
  case (4 cfg plain tagName base idx fragment hasContent st)
  then show ?case by simp
next
  case (5 cfg plain tagName base child rest idx fragment hasContent st)
  define indexed where "indexed = (tagName = ''ol'' \<and> toLowerCase (nodeName child) = ''li'')"
  define childContext where
    "childContext = (if indexed then base\<lparr>listIndex := Some idx\<rparr> else base)"
  define idx' where "idx' = (if indexed then idx + 1 else idx)"
  obtain processed st' where
    p: "processNode2 cfg plain childContext child st = (processed, st')"
    by (cases "processNode2 cfg plain childContext child st")
  from "5.IH"(1) [OF indexed_def childContext_def] p have ne: "processed \<noteq> Fragment []"
    by simp
  show ?case
  proof (cases processed)
    case Null
    from "5.IH"(2) [OF indexed_def childContext_def idx'_def p [symmetric] Null] p Null
    show ?thesis
      by (simp add: Let_def indexed_def childContext_def idx'_def)
  next
    case (Node x)
    from "5.IH"(3) [OF indexed_def childContext_def idx'_def p [symmetric] Node refl]
    obtain more where
      "fst (fst (processEach2 cfg plain tagName base rest idx' (appendChild fragment processed)
         (if (case processed of Node (OText t) \<Rightarrow> trim t = [] | _ \<Rightarrow> False) \<and> \<not> plain
          then hasContent else True) st')) = appendChild fragment processed @ more"
      by blast
    then show ?thesis
      using p Node
      by (simp add: Let_def indexed_def childContext_def idx'_def)
  next
    case (Fragment xs)
    from "5.IH"(4) [OF indexed_def childContext_def idx'_def p [symmetric] Fragment refl]
    obtain more where
      "fst (fst (processEach2 cfg plain tagName base rest idx' (appendChild fragment processed)
         (if (case processed of Node (OText t) \<Rightarrow> trim t = [] | _ \<Rightarrow> False) \<and> \<not> plain
          then hasContent else True) st')) = appendChild fragment processed @ more"
      by blast
    then show ?thesis
      using p Fragment ne
      by (simp add: Let_def indexed_def childContext_def idx'_def)
  qed
qed

lemma ignored_has_no_target:
  assumes "t \<in> set IGNORE_TAGS"
  shows "targetTagFor ctx t = None"
proof -
  have "\<forall>x \<in> set IGNORE_TAGS. BASE_TAG_MAP2 x = None \<and> \<not> isHeaderTag x \<and> x \<noteq> ''div''"
    by (simp add: IGNORE_TAGS_def BASE_TAG_MAP2_def isHeaderTag_def)
  with assms show ?thesis
    by (simp add: targetTagFor_def Let_def)
qed

lemma second_engine_empty_element:
  assumes "childFragment2 cfg plain ctx tn attrs kids st = []"
    and "targetTagFor ctx (toLowerCase tn) \<noteq> Some ''br''"
  shows "fst (processNode2 cfg plain ctx (Element tn attrs kids) st) = Null"
proof (cases "toLowerCase tn \<in> set IGNORE_TAGS")
  case True
  then show ?thesis by simp
next
  case False
  let ?t = "toLowerCase tn"
  let ?f0 = "if prefixFor ctx ?t \<noteq> [] then [OText (prefixFor ctx ?t)] else []"
  obtain fragment hasContent st2 where
    e: "processEach2 cfg plain ?t (childBaseContext ctx ?t) kids (firstListIndex ?t attrs) ?f0
          False st = ((fragment, hasContent), st2)"
    by (metis prod.exhaust)
  from assms(1) e have f: "fragment = []"
    by (simp add: childFragment2_def)
  from processEach2_extends [of cfg plain ?t "childBaseContext ctx ?t" kids
      "firstListIndex ?t attrs" ?f0 False st] e f
  have "?f0 = []" and "\<not> hasContent"
    by auto
  moreover from \<open>?f0 = []\<close> have "?t \<noteq> ''td''"
    by (auto simp: prefixFor_def U_def split: if_splits)
  ultimately show ?thesis
    using assms(2) by (simp only: processNode2_kept [OF False e] Let_def) simp
qed

lemma second_engine_break_element:
  assumes "targetTagFor ctx (toLowerCase tn) = Some ''br''"
  shows "\<exists>rest. fst (processNode2 cfg plain ctx (Element tn attrs kids) st)
           = Fragment (OElement ''br'' [] [] # rest)"
proof -
  let ?t = "toLowerCase tn"
  let ?f0 = "if prefixFor ctx ?t \<noteq> [] then [OText (prefixFor ctx ?t)] else []"
  have kept: "?t \<notin> set IGNORE_TAGS"
    using assms ignored_has_no_target [of ?t ctx] by auto
  obtain fragment hasContent st2 where
    e: "processEach2 cfg plain ?t (childBaseContext ctx ?t) kids (firstListIndex ?t attrs) ?f0
          False st = ((fragment, hasContent), st2)"
    by (metis prod.exhaust)
  show ?thesis
    using assms
    by (simp only: processNode2_kept [OF kept e] Let_def)
      (simp add: blockWrapper2_def createElement_def appendChild_nodesOf)
qed

lemma empty_example_first_engine:
  "postProcess cfg (rewrittenAll cfg topContext
      [Element ''B'' [] [], Element ''P'' [] [Text (U ''   '')]]) = []"
  by (cases "aggressiveWhitespace cfg"; cases "useParagraphs cfg")
    (simp_all del: let_rules
      add: rewrittenAll_def rewritten_def topContext_def postProcess_def
        walker_rules output_rules string_rules)

lemma empty_example_second_engine:
  "processBody2 cfg False [Element ''B'' [] [], Element ''P'' [] [Text (U ''   '')]] []
       \<lparr>tagsRemoved = 0, attributesRemoved = 0\<rparr>
     = ([], \<lparr>tagsRemoved = 0, attributesRemoved = 0\<rparr>)"
  by (cases "aggressiveWhitespace cfg")
    (simp_all del: let_rules add: walker_rules string_rules)

lemma empty_example_not_plain:
  "\<not> treatAsPlainText [Element ''B'' [] [], Element ''P'' [] [Text (U ''   '')]]"
  by (simp add: treatAsPlainText_def walker_rules)

lemma regexCleanup_empty: "regexCleanup cfg plain [] = []"
  by (cases plain; cases "useParagraphs cfg") (simp_all add: pattern_rules string_rules)

text \<open>
  Claim C7.  An element whose collected child fragment is empty and whose target tag is not
  \<open>br\<close> gives \<open>null\<close>; an element whose target tag is \<open>br\<close> is always emitted (in the first
  engine as one \<open>br\<close> element, in the second as a \<open>br\<close> element followed by its content).
  When the parsed body is that of \<open><b></b><p>   </p>\<close>, both engines return the empty string,
  whatever the configuration.
\<close>

theorem emptiness_rule:
  "(childFragment cfg ctx tn kids = [] \<and> BASE_TAG_MAP (toLowerCase tn) \<noteq> Some ''br''
      \<longrightarrow> fst (processNode cfg ctx (Element tn attrs kids) st) = Null)
   \<and> (BASE_TAG_MAP (toLowerCase tn) = Some ''br''
      \<longrightarrow> fst (processNode cfg ctx (Element tn attrs kids) st) = Node (OElement ''br'' [] []))
   \<and> (childFragment2 cfg plain lctx tn attrs kids st = []
        \<and> targetTagFor lctx (toLowerCase tn) \<noteq> Some ''br''
      \<longrightarrow> fst (processNode2 cfg plain lctx (Element tn attrs kids) st) = Null)
   \<and> (targetTagFor lctx (toLowerCase tn) = Some ''br''
      \<longrightarrow> (\<exists>rest. fst (processNode2 cfg plain lctx (Element tn attrs kids) st)
                   = Fragment (OElement ''br'' [] [] # rest)))
   \<and> (sanitize engineOptions rawHtml = Inr cleanInput \<and> parseFromString cleanInput = Inr doc
        \<and> docHead doc = []
        \<and> docBody doc = [Element ''B'' [] [], Element ''P'' [] [Text (U ''   '')]]
      \<longrightarrow> html (cleanHtml sanitize parseFromString rawHtml cfg) = []
        \<and> error (cleanHtml sanitize parseFromString rawHtml cfg) = None)
   \<and> (parseFromString rawHtml = Inr doc \<and> docHead doc = []
        \<and> docBody doc = [Element ''B'' [] [], Element ''P'' [] [Text (U ''   '')]]
      \<longrightarrow> html (cleanHtml2 parseFromString rawHtml cfg) = []
        \<and> error (cleanHtml2 parseFromString rawHtml cfg) = None)"
proof (intro conjI impI)
  assume "childFragment cfg ctx tn kids = [] \<and> BASE_TAG_MAP (toLowerCase tn) \<noteq> Some ''br''"
  then show "fst (processNode cfg ctx (Element tn attrs kids) st) = Null"
    using first_engine_empty_element by blast
next
  assume "BASE_TAG_MAP (toLowerCase tn) = Some ''br''"
  then show "fst (processNode cfg ctx (Element tn attrs kids) st) = Node (OElement ''br'' [] [])"
    by (rule first_engine_break_element)
next
  assume "childFragment2 cfg plain lctx tn attrs kids st = []
        \<and> targetTagFor lctx (toLowerCase tn) \<noteq> Some ''br''"
  then show "fst (processNode2 cfg plain lctx (Element tn attrs kids) st) = Null"
    using second_engine_empty_element by blast
next
  assume "targetTagFor lctx (toLowerCase tn) = Some ''br''"
  then show "\<exists>rest. fst (processNode2 cfg plain lctx (Element tn attrs kids) st)
                   = Fragment (OElement ''br'' [] [] # rest)"
    by (rule second_engine_break_element)
next
  assume a: "sanitize engineOptions rawHtml = Inr cleanInput \<and> parseFromString cleanInput = Inr doc
        \<and> docHead doc = []
        \<and> docBody doc = [Element ''B'' [] [], Element ''P'' [] [Text (U ''   '')]]"
  then have q: "\<not> querySelector doc ''parsererror''"
    by (simp add: querySelector_def toLowerCase_def toLowerChar_def)
  from a have a1: "sanitize engineOptions rawHtml = Inr cleanInput"
    and a2: "parseFromString cleanInput = Inr doc"
    and a4: "docBody doc = [Element ''B'' [] [], Element ''P'' [] [Text (U ''   '')]]"
    by simp_all
  show "html (cleanHtml sanitize parseFromString rawHtml cfg) = []"
    "error (cleanHtml sanitize parseFromString rawHtml cfg) = None"
    unfolding cleanHtml_document [of sanitize rawHtml cleanInput parseFromString doc cfg,
        OF a1 a2 q]
    by (simp_all only: a4 empty_example_first_engine conversion.simps)
next
  assume a: "parseFromString rawHtml = Inr doc \<and> docHead doc = []
        \<and> docBody doc = [Element ''B'' [] [], Element ''P'' [] [Text (U ''   '')]]"
  then have q: "\<not> querySelector doc ''parsererror''"
    by (simp add: querySelector_def toLowerCase_def toLowerChar_def)
  from a have a1: "parseFromString rawHtml = Inr doc"
    and a4: "docBody doc = [Element ''B'' [] [], Element ''P'' [] [Text (U ''   '')]]"
    by simp_all
  have w: "processBody2 cfg (treatAsPlainText (docBody doc)) (docBody doc) []
       \<lparr>tagsRemoved = 0, attributesRemoved = 0\<rparr> = ([], \<lparr>tagsRemoved = 0, attributesRemoved = 0\<rparr>)"
    unfolding a4 using empty_example_not_plain empty_example_second_engine by simp
  have i: "innerHTML [] = []"
    by (simp add: innerHTML_def)
  show "html (cleanHtml2 parseFromString rawHtml cfg) = []"
    "error (cleanHtml2 parseFromString rawHtml cfg) = None"
    unfolding cleanHtml2_document [of parseFromString rawHtml doc cfg "[]"
        "\<lparr>tagsRemoved = 0, attributesRemoved = 0\<rparr>", OF a1 q w]
    by (simp_all only: i regexCleanup_empty conversion.simps)
qed

theorem emptiness_rule_witness:
  "childFragment \<lparr>useParagraphs = True, aggressiveWhitespace = False\<rparr> topContext ''B'' [] = []
   \<and> BASE_TAG_MAP (toLowerCase ''B'') \<noteq> Some ''br''
   \<and> fst (processNode \<lparr>useParagraphs = True, aggressiveWhitespace = False\<rparr> topContext
        (Element ''B'' [] []) \<lparr>tagsRemoved = 0, attributesRemoved = 0\<rparr>) = Null
   \<and> BASE_TAG_MAP (toLowerCase ''HR'') = Some ''br''
   \<and> fst (processNode \<lparr>useParagraphs = True, aggressiveWhitespace = False\<rparr> topContext
        (Element ''HR'' [] []) \<lparr>tagsRemoved = 0, attributesRemoved = 0\<rparr>)
      = Node (OElement ''br'' [] [])
   \<and> targetTagFor topContext2 (toLowerCase ''B'') \<noteq> Some ''br''
   \<and> fst (processNode2 \<lparr>useParagraphs = True, aggressiveWhitespace = False\<rparr> False topContext2
        (Element ''B'' [] []) \<lparr>tagsRemoved = 0, attributesRemoved = 0\<rparr>) = Null
   \<and> targetTagFor topContext2 (toLowerCase ''HR'') = Some ''br''
   \<and> html (cleanHtml (\<lambda>opts. Inr)
        (\<lambda>s. Inr \<lparr>docHead = [],
                  docBody = [Element ''B'' [] [], Element ''P'' [] [Text (U ''   '')]]\<rparr>)
        (U ''<b></b><p>   </p>'') \<lparr>useParagraphs = True, aggressiveWhitespace = False\<rparr>) = []
   \<and> html (cleanHtml2
        (\<lambda>s. Inr \<lparr>docHead = [],
                  docBody = [Element ''B'' [] [], Element ''P'' [] [Text (U ''   '')]]\<rparr>)
        (U ''<b></b><p>   </p>'') \<lparr>useParagraphs = True, aggressiveWhitespace = False\<rparr>) = []"
proof -
  let ?cfg = "\<lparr>useParagraphs = True, aggressiveWhitespace = False\<rparr>"
  let ?st = "\<lparr>tagsRemoved = 0, attributesRemoved = 0\<rparr>"
  let ?doc = "\<lparr>docHead = [], docBody = [Element ''B'' [] [], Element ''P'' [] [Text (U ''   '')]]\<rparr>"
  have h1: "childFragment ?cfg topContext ''B'' [] = []"
    by (simp add: childFragment_def rewrittenAll_def)
  have h2: "BASE_TAG_MAP (toLowerCase ''B'') \<noteq> Some ''br''"
    "BASE_TAG_MAP (toLowerCase ''HR'') = Some ''br''"
    by (simp_all add: toLowerCase_def toLowerChar_def BASE_TAG_MAP_def)
  have h3: "targetTagFor topContext2 (toLowerCase ''B'') \<noteq> Some ''br''"
    "targetTagFor topContext2 (toLowerCase ''HR'') = Some ''br''"
    by (simp_all add: toLowerCase_def toLowerChar_def targetTagFor_def BASE_TAG_MAP2_def
        topContext2_def)
  have h4: "childFragment2 ?cfg False topContext2 ''B'' [] [] ?st = []"
    by (simp add: childFragment2_def toLowerCase_def toLowerChar_def prefixFor_def)
  note b = emptiness_rule [where tn = "''B''" and cfg = ?cfg and ctx = topContext and kids = "[]"
      and attrs = "[]" and st = ?st and plain = False and lctx = topContext2
      and sanitize = "\<lambda>opts. Inr" and parseFromString = "\<lambda>s. Inr ?doc" and doc = ?doc
      and rawHtml = "U ''<b></b><p>   </p>''" and cleanInput = "U ''<b></b><p>   </p>''"]
  note hr = emptiness_rule [where tn = "''HR''" and cfg = ?cfg and ctx = topContext
      and kids = "[]" and attrs = "[]" and st = ?st]
  show ?thesis
    using h1 h2 h3 h4 b hr by simp
qed

section \<open>Paragraphs inside list items\<close>

lemma p_mapped_is_kept: "BASE_TAG_MAP t = Some ''p'' \<Longrightarrow> t \<notin> set IGNORE_TAGS"
proof -
  have "\<forall>x \<in> set IGNORE_TAGS. BASE_TAG_MAP x = None"
    by (simp add: IGNORE_TAGS_def BASE_TAG_MAP_def)
  then show "BASE_TAG_MAP t = Some ''p'' \<Longrightarrow> t \<notin> set IGNORE_TAGS"
    by auto
qed

lemma first_engine_paragraph:
  assumes "BASE_TAG_MAP (toLowerCase tn) = Some ''p''" and "childFragment cfg ctx tn kids \<noteq> []"
  shows "fst (processNode cfg ctx (Element tn attrs kids) st)
     = (if insideListListItem ctx then wrappedContent cfg ctx tn attrs kids
        else Node (OElement ''p'' [] (nodesOf (wrappedContent cfg ctx tn attrs kids))))"
  using assms
  by (simp only: processNode_rewritten rewritten_kept [OF p_mapped_is_kept [OF assms(1)]] Let_def
      childFragment_def wrappedContent_def styleOf_def)
    (simp add: blockWrapper_def wrap_def appendChild_nodesOf)

lemma visualWrappers_none:
  "t \<notin> {Some ''sub'', Some ''sup'', Some ''u'', Some ''i'', Some ''b''} \<Longrightarrow> n \<noteq> ''th''
     \<Longrightarrow> visualWrappers t n False False False False f = f"
  by (simp add: visualWrappers_def Let_def)

lemma visualWrappers_top:
  "t \<notin> {Some ''sub'', Some ''sup''}
     \<Longrightarrow> visualWrappers t n b i u h (Fragment f) = Fragment f
       \<or> (\<exists>x. visualWrappers t n b i u h (Fragment f) = Node (OElement ''u'' [] x))
       \<or> (\<exists>x. visualWrappers t n b i u h (Fragment f) = Node (OElement ''i'' [] x))
       \<or> (\<exists>x. visualWrappers t n b i u h (Fragment f) = Node (OElement ''b'' [] x))"
  by (simp add: visualWrappers_def wrap_def Let_def)

lemma second_engine_block_in_list_item:
  assumes "insideListListItem ctx"
    and "BASE_TAG_MAP2 (toLowerCase tn) = Some ''p'' \<or> isHeaderTag (toLowerCase tn)
           \<or> toLowerCase tn = ''div''"
  shows "fst (processNode2 cfg plain ctx (Element tn attrs kids) st)
     = Fragment (OElement ''br'' [] [] # nodesOf (wrappedContent2 cfg plain ctx tn attrs kids st))"
proof -
  let ?t = "toLowerCase tn"
  let ?f0 = "if prefixFor ctx ?t \<noteq> [] then [OText (prefixFor ctx ?t)] else []"
  have t: "targetTagFor ctx ?t = Some ''br''"
    using assms by (simp add: targetTagFor_def Let_def)
  then have kept: "?t \<notin> set IGNORE_TAGS"
    using ignored_has_no_target [of ?t ctx] by auto
  obtain fragment hasContent st2 where
    e: "processEach2 cfg plain ?t (childBaseContext ctx ?t) kids (firstListIndex ?t attrs) ?f0
          False st = ((fragment, hasContent), st2)"
    by (metis prod.exhaust)
  then have f: "childFragment2 cfg plain ctx tn attrs kids st = fragment"
    by (simp add: childFragment2_def)
  show ?thesis
    by (simp only: processNode2_kept [OF kept e] Let_def wrappedContent2_def f styleOf_def t)
      (simp add: blockWrapper2_def createElement_def appendChild_nodesOf)
qed

lemma list_example_body:
  "\<not> querySelector
       \<lparr>docHead = [],
        docBody = [Element ''UL'' [] [Element ''LI'' [] [Element ''P'' [] [Text (U ''Item'')]]]]\<rparr>
       ''parsererror''"
  by (simp add: querySelector_def toLowerCase_def toLowerChar_def)

lemma list_example_first_engine:
  "postProcess cfg (rewrittenAll cfg topContext
      [Element ''UL'' [] [Element ''LI'' [] [Element ''P'' [] [Text (U ''Item'')]]]])
     = U ''<ul><li>Item</li></ul>''"
  by (cases "aggressiveWhitespace cfg"; cases "useParagraphs cfg")
    (simp_all del: let_rules
      add: rewrittenAll_def rewritten_def topContext_def postProcess_def
        walker_rules output_rules string_rules)

lemma list_example_second_engine:
  "processBody2 cfg False
       [Element ''UL'' [] [Element ''LI'' [] [Element ''P'' [] [Text (U ''Item'')]]]] []
       \<lparr>tagsRemoved = 0, attributesRemoved = 0\<rparr>
     = ([OElement ''p'' []
           [OElement ''br'' [] [], OText [8226, 32], OElement ''br'' [] [], OText (U ''Item'')]],
        \<lparr>tagsRemoved = 0, attributesRemoved = 0\<rparr>)"
  by (cases "aggressiveWhitespace cfg")
    (simp_all del: let_rules add: walker_rules string_rules)

lemma list_example_not_plain:
  "\<not> treatAsPlainText [Element ''UL'' [] [Element ''LI'' [] [Element ''P'' [] [Text (U ''Item'')]]]]"
  by (simp add: treatAsPlainText_def walker_rules)

lemma list_example_cleanup:
  "regexCleanup cfg False
     (innerHTML [OElement ''p'' []
        [OElement ''br'' [] [], OText [8226, 32], OElement ''br'' [] [], OText (U ''Item'')]])
     = (if useParagraphs cfg then [60, 112, 62, 8226, 32] @ U ''Item</p>''
        else [8226, 32] @ U ''Item'')"
proof -
  have "innerHTML [OElement ''p'' []
        [OElement ''br'' [] [], OText [8226, 32], OElement ''br'' [] [], OText (U ''Item'')]]
      = U ''<p><br>'' @ [8226, 32] @ U ''<br>Item</p>''"
    by (simp add: output_rules string_rules)
  then show ?thesis
    by (cases "useParagraphs cfg") (simp_all add: pattern_rules string_rules)
qed

text \<open>
  Claim C4, as amended.  First engine: inside a list item, an element whose target tag is \<open>p\<close>
  (a heading too) gets no paragraph wrapper; what goes to the parent is the element's content,
  that is, its processed children inside the bold, italic or underline wrappers the element
  itself calls for (none of them a \<open>p\<close>), and the bare children when it calls for none.  The
  parsed body of \<open><ul><li><p>Item</p></li></ul>\<close> gives exactly that string back.  Second
  engine: inside a list item, such an element (and every heading or \<open>div\<close>) becomes a break
  followed by its content, and the same body gives \<open><p>\<bullet> Item</p>\<close> in paragraph mode and
  \<open>\<bullet> Item\<close> in line-break mode.
\<close>

theorem paragraph_suppressed_inside_list_item:
  "(BASE_TAG_MAP (toLowerCase tn) = Some ''p'' \<and> childFragment cfg ctx tn kids \<noteq> []
      \<and> insideListListItem ctx
      \<longrightarrow> fst (processNode cfg ctx (Element tn attrs kids) st)
            = wrappedContent cfg ctx tn attrs kids
        \<and> (\<forall>a k. wrappedContent cfg ctx tn attrs kids \<noteq> Node (OElement ''p'' a k))
        \<and> (\<not> isBoldStyle (styleOf attrs) \<and> \<not> isItalicStyle (styleOf attrs)
             \<and> \<not> isUnderlineStyle (styleOf attrs) \<and> \<not> isHeaderTag (toLowerCase tn)
           \<longrightarrow> wrappedContent cfg ctx tn attrs kids = Fragment (childFragment cfg ctx tn kids)))
   \<and> (sanitize engineOptions rawHtml = Inr cleanInput \<and> parseFromString cleanInput = Inr doc
        \<and> docHead doc = []
        \<and> docBody doc
            = [Element ''UL'' [] [Element ''LI'' [] [Element ''P'' [] [Text (U ''Item'')]]]]
      \<longrightarrow> html (cleanHtml sanitize parseFromString rawHtml cfg) = U ''<ul><li>Item</li></ul>''
        \<and> error (cleanHtml sanitize parseFromString rawHtml cfg) = None)
   \<and> (insideListListItem lctx
        \<and> (BASE_TAG_MAP2 (toLowerCase tn) = Some ''p'' \<or> isHeaderTag (toLowerCase tn)
             \<or> toLowerCase tn = ''div'')
      \<longrightarrow> fst (processNode2 cfg plain lctx (Element tn attrs kids) st)
            = Fragment (OElement ''br'' [] []
                # nodesOf (wrappedContent2 cfg plain lctx tn attrs kids st)))
   \<and> (parseFromString rawHtml = Inr doc \<and> docHead doc = []
        \<and> docBody doc
            = [Element ''UL'' [] [Element ''LI'' [] [Element ''P'' [] [Text (U ''Item'')]]]]
      \<longrightarrow> html (cleanHtml2 parseFromString rawHtml cfg)
            = (if useParagraphs cfg then [60, 112, 62, 8226, 32] @ U ''Item</p>''
               else [8226, 32] @ U ''Item'')
        \<and> error (cleanHtml2 parseFromString rawHtml cfg) = None)"
proof (intro conjI impI allI)
  assume a: "BASE_TAG_MAP (toLowerCase tn) = Some ''p'' \<and> childFragment cfg ctx tn kids \<noteq> []
      \<and> insideListListItem ctx"
  then show "fst (processNode cfg ctx (Element tn attrs kids) st)
            = wrappedContent cfg ctx tn attrs kids"
    using first_engine_paragraph [of tn cfg ctx kids attrs st] by simp
  fix a' k
  from a have "BASE_TAG_MAP (toLowerCase tn) \<notin> {Some ''sub'', Some ''sup''}"
    by simp
  from visualWrappers_top [OF this]
  have "wrappedContent cfg ctx tn attrs kids = Fragment (childFragment cfg ctx tn kids)
      \<or> (\<exists>x. wrappedContent cfg ctx tn attrs kids = Node (OElement ''u'' [] x))
      \<or> (\<exists>x. wrappedContent cfg ctx tn attrs kids = Node (OElement ''i'' [] x))
      \<or> (\<exists>x. wrappedContent cfg ctx tn attrs kids = Node (OElement ''b'' [] x))"
    unfolding wrappedContent_def by blast
  then show "wrappedContent cfg ctx tn attrs kids \<noteq> Node (OElement ''p'' a' k)"
    by auto
next
  assume a: "BASE_TAG_MAP (toLowerCase tn) = Some ''p'' \<and> childFragment cfg ctx tn kids \<noteq> []
      \<and> insideListListItem ctx"
  assume b: "\<not> isBoldStyle (styleOf attrs) \<and> \<not> isItalicStyle (styleOf attrs)
             \<and> \<not> isUnderlineStyle (styleOf attrs) \<and> \<not> isHeaderTag (toLowerCase tn)"
  have "toLowerCase tn \<noteq> ''th''"
  proof
    assume "toLowerCase tn = ''th''"
    then have "BASE_TAG_MAP (toLowerCase tn) = Some ''b''"
      by (simp add: BASE_TAG_MAP_def)
    with a show False by simp
  qed
  with a b show "wrappedContent cfg ctx tn attrs kids = Fragment (childFragment cfg ctx tn kids)"
    by (simp add: wrappedContent_def visualWrappers_none)
next
  assume a: "sanitize engineOptions rawHtml = Inr cleanInput \<and> parseFromString cleanInput = Inr doc
        \<and> docHead doc = []
        \<and> docBody doc
            = [Element ''UL'' [] [Element ''LI'' [] [Element ''P'' [] [Text (U ''Item'')]]]]"
  then have q: "\<not> querySelector doc ''parsererror''"
    by (simp add: querySelector_def toLowerCase_def toLowerChar_def)
  from a have a1: "sanitize engineOptions rawHtml = Inr cleanInput"
    and a2: "parseFromString cleanInput = Inr doc"
    and a4: "docBody doc
        = [Element ''UL'' [] [Element ''LI'' [] [Element ''P'' [] [Text (U ''Item'')]]]]"
    by simp_all
  show "html (cleanHtml sanitize parseFromString rawHtml cfg) = U ''<ul><li>Item</li></ul>''"
    "error (cleanHtml sanitize parseFromString rawHtml cfg) = None"
    unfolding cleanHtml_document [of sanitize rawHtml cleanInput parseFromString doc cfg,
        OF a1 a2 q]
    by (simp_all only: a4 list_example_first_engine conversion.simps)
next
  assume "insideListListItem lctx
        \<and> (BASE_TAG_MAP2 (toLowerCase tn) = Some ''p'' \<or> isHeaderTag (toLowerCase tn)
             \<or> toLowerCase tn = ''div'')"
  then show "fst (processNode2 cfg plain lctx (Element tn attrs kids) st)
            = Fragment (OElement ''br'' [] []
                # nodesOf (wrappedContent2 cfg plain lctx tn attrs kids st))"
    using second_engine_block_in_list_item by blast
next
  assume a: "parseFromString rawHtml = Inr doc \<and> docHead doc = []
        \<and> docBody doc
            = [Element ''UL'' [] [Element ''LI'' [] [Element ''P'' [] [Text (U ''Item'')]]]]"
  then have q: "\<not> querySelector doc ''parsererror''"
    by (simp add: querySelector_def toLowerCase_def toLowerChar_def)
  from a have a1: "parseFromString rawHtml = Inr doc"
    and a4: "docBody doc
        = [Element ''UL'' [] [Element ''LI'' [] [Element ''P'' [] [Text (U ''Item'')]]]]"
    by simp_all
  have w: "processBody2 cfg (treatAsPlainText (docBody doc)) (docBody doc) []
       \<lparr>tagsRemoved = 0, attributesRemoved = 0\<rparr>
     = ([OElement ''p'' []
           [OElement ''br'' [] [], OText [8226, 32], OElement ''br'' [] [], OText (U ''Item'')]],
        \<lparr>tagsRemoved = 0, attributesRemoved = 0\<rparr>)"
    unfolding a4 using list_example_not_plain list_example_second_engine by simp
  show "html (cleanHtml2 parseFromString rawHtml cfg)
            = (if useParagraphs cfg then [60, 112, 62, 8226, 32] @ U ''Item</p>''
               else [8226, 32] @ U ''Item'')"
    "error (cleanHtml2 parseFromString rawHtml cfg) = None"
    unfolding cleanHtml2_document [of parseFromString rawHtml doc cfg _
        "\<lparr>tagsRemoved = 0, attributesRemoved = 0\<rparr>", OF a1 q w]
    by (simp_all only: a4 list_example_not_plain list_example_cleanup conversion.simps)
qed

theorem paragraph_suppressed_inside_list_item_witness:
  "BASE_TAG_MAP (toLowerCase ''P'') = Some ''p''
   \<and> childFragment \<lparr>useParagraphs = True, aggressiveWhitespace = False\<rparr>
         \<lparr>insideListListItem = True\<rparr> ''P'' [Text (U ''Item'')] \<noteq> []
   \<and> fst (processNode \<lparr>useParagraphs = True, aggressiveWhitespace = False\<rparr>
         \<lparr>insideListListItem = True\<rparr> (Element ''P'' [] [Text (U ''Item'')])
         \<lparr>tagsRemoved = 0, attributesRemoved = 0\<rparr>)
      = Fragment (childFragment \<lparr>useParagraphs = True, aggressiveWhitespace = False\<rparr>
         \<lparr>insideListListItem = True\<rparr> ''P'' [Text (U ''Item'')])
   \<and> html (cleanHtml (\<lambda>opts. Inr)
        (\<lambda>s. Inr \<lparr>docHead = [],
                  docBody = [Element ''UL'' []
                    [Element ''LI'' [] [Element ''P'' [] [Text (U ''Item'')]]]]\<rparr>)
        (U ''<ul><li><p>Item</p></li></ul>'')
        \<lparr>useParagraphs = True, aggressiveWhitespace = False\<rparr>) = U ''<ul><li>Item</li></ul>''
   \<and> fst (processNode2 \<lparr>useParagraphs = True, aggressiveWhitespace = False\<rparr> False
         \<lparr>insideListListItem = True, parentListType = Some ''ul'', listIndex = None\<rparr>
         (Element ''P'' [] [Text (U ''Item'')]) \<lparr>tagsRemoved = 0, attributesRemoved = 0\<rparr>)
      = Fragment [OElement ''br'' [] [], OText (U ''Item'')]
   \<and> html (cleanHtml2
        (\<lambda>s. Inr \<lparr>docHead = [],
                  docBody = [Element ''UL'' []
                    [Element ''LI'' [] [Element ''P'' [] [Text (U ''Item'')]]]]\<rparr>)
        (U ''<ul><li><p>Item</p></li></ul>'')
        \<lparr>useParagraphs = True, aggressiveWhitespace = False\<rparr>)
      = [60, 112, 62, 8226, 32] @ U ''Item</p>''"
proof -
  let ?cfg = "\<lparr>useParagraphs = True, aggressiveWhitespace = False\<rparr>"
  let ?st = "\<lparr>tagsRemoved = 0, attributesRemoved = 0\<rparr>"
  let ?li = "\<lparr>insideListListItem = True\<rparr>"
  let ?li2 = "\<lparr>insideListListItem = True, parentListType = Some ''ul'', listIndex = None\<rparr>"
  let ?doc = "\<lparr>docHead = [],
      docBody = [Element ''UL'' [] [Element ''LI'' [] [Element ''P'' [] [Text (U ''Item'')]]]]\<rparr>"
  have h1: "BASE_TAG_MAP (toLowerCase ''P'') = Some ''p''"
    "BASE_TAG_MAP2 (toLowerCase ''P'') = Some ''p''"
    "\<not> isHeaderTag (toLowerCase ''P'')"
    by (simp_all add: toLowerCase_def toLowerChar_def BASE_TAG_MAP_def BASE_TAG_MAP2_def
        isHeaderTag_def)
  have h2: "childFragment ?cfg ?li ''P'' [Text (U ''Item'')] = [OText (U ''Item'')]"
    by (simp del: let_rules
        add: childFragment_def rewrittenAll_def rewritten_def walker_rules string_rules)
  have h3: "\<not> isBoldStyle (styleOf []) \<and> \<not> isItalicStyle (styleOf [])
      \<and> \<not> isUnderlineStyle (styleOf [])"
    by (simp add: styleOf_def walker_rules string_rules)
  have h4: "nodesOf (wrappedContent2 ?cfg False ?li2 ''P'' [] [Text (U ''Item'')] ?st)
      = [OText (U ''Item'')]"
    by (simp del: let_rules
        add: wrappedContent2_def childFragment2_def styleOf_def walker_rules string_rules)
  note t = paragraph_suppressed_inside_list_item
    [where tn = "''P''" and cfg = ?cfg and ctx = ?li and kids = "[Text (U ''Item'')]"
      and attrs = "[]" and st = ?st and plain = False and lctx = ?li2
      and sanitize = "\<lambda>opts. Inr" and parseFromString = "\<lambda>s. Inr ?doc" and doc = ?doc
      and rawHtml = "U ''<ul><li><p>Item</p></li></ul>''"
      and cleanInput = "U ''<ul><li><p>Item</p></li></ul>''"]
  show ?thesis
    using h1 h3 t by (simp add: h2 h4)
qed

text \<open>The second engine on the example of the claim: the output is not the list.\<close>

theorem second_engine_list_example:
  "error (cleanHtml2 exampleParse (U ''<ul><li><p>Item</p></li></ul>'')
            \<lparr>useParagraphs = True, aggressiveWhitespace = False\<rparr>) = None
   \<and> html (cleanHtml2 exampleParse (U ''<ul><li><p>Item</p></li></ul>'')
            \<lparr>useParagraphs = True, aggressiveWhitespace = False\<rparr>)
       = [60, 112, 62, 8226, 32] @ U ''Item</p>''
   \<and> html (cleanHtml2 exampleParse (U ''<ul><li><p>Item</p></li></ul>'')
            \<lparr>useParagraphs = True, aggressiveWhitespace = False\<rparr>)
       \<noteq> U ''<ul><li>Item</li></ul>''"
proof -
  let ?cfg = "\<lparr>useParagraphs = True, aggressiveWhitespace = False\<rparr>"
  let ?doc = "\<lparr>docHead = [],
      docBody = [Element ''UL'' [] [Element ''LI'' [] [Element ''P'' [] [Text (U ''Item'')]]]]\<rparr>"
  have p: "exampleParse (U ''<ul><li><p>Item</p></li></ul>'') = Inr ?doc"
    by (simp add: exampleParse_def U_def)
  have d: "docHead ?doc = []" "docBody ?doc
      = [Element ''UL'' [] [Element ''LI'' [] [Element ''P'' [] [Text (U ''Item'')]]]]"
    by simp_all
  have w: "processBody2 ?cfg (treatAsPlainText (docBody ?doc)) (docBody ?doc) []
       \<lparr>tagsRemoved = 0, attributesRemoved = 0\<rparr>
     = ([OElement ''p'' []
           [OElement ''br'' [] [], OText [8226, 32], OElement ''br'' [] [], OText (U ''Item'')]],
        \<lparr>tagsRemoved = 0, attributesRemoved = 0\<rparr>)"
    unfolding d using list_example_not_plain list_example_second_engine by simp
  have r: "cleanHtml2 exampleParse (U ''<ul><li><p>Item</p></li></ul>'') ?cfg
     = \<lparr>html = [60, 112, 62, 8226, 32] @ U ''Item</p>'',
        stats = \<lparr>tagsRemoved = 0, attributesRemoved = 0,
                 originalLength = length (U ''<ul><li><p>Item</p></li></ul>''),
                 finalLength = length ([60, 112, 62, 8226, 32] @ U ''Item</p>'')\<rparr>,
        error = None\<rparr>"
    unfolding cleanHtml2_document [of exampleParse "U ''<ul><li><p>Item</p></li></ul>''" ?doc
        ?cfg _ "\<lparr>tagsRemoved = 0, attributesRemoved = 0\<rparr>", OF p list_example_body w]
    by (simp only: d list_example_not_plain list_example_cleanup) simp
  show ?thesis
    by (simp only: r conversion.simps) (simp add: U_def)
qed

section \<open>The second walker: results, and the markers of list items\<close>

lemma processNode2_pure_all:
  "\<forall>st'. fst (processNode2 cfg plain ctx n st) = fst (processNode2 cfg plain ctx n st')"
  and processEach2_pure_all:
  "\<forall>st'. fst (processEach2 cfg plain tagName base ns idx fragment hasContent st)
          = fst (processEach2 cfg plain tagName base ns idx fragment hasContent st')"
proof (induction cfg plain ctx n st and cfg plain tagName base ns idx fragment hasContent st
       rule: processNode2_processEach2.induct)
  case (1 cfg plain ctx t st)
  then show ?case by (simp add: Let_def)
next
  case (2 cfg plain ctx tn attrs kids st)
  show ?case
  proof (cases "toLowerCase tn \<in> set IGNORE_TAGS")
    case True
    then show ?thesis by simp
  next
    case False
    let ?t = "toLowerCase tn"
    let ?f0 = "if prefixFor ctx ?t \<noteq> [] then [OText (prefixFor ctx ?t)] else []"
    show ?thesis
    proof
      fix s'
      obtain fragment hasContent st2 where
        e: "processEach2 cfg plain ?t (childBaseContext ctx ?t) kids (firstListIndex ?t attrs)
              ?f0 False st = ((fragment, hasContent), st2)"
        by (metis prod.exhaust)
      obtain fragment' hasContent' st2' where
        e': "processEach2 cfg plain ?t (childBaseContext ctx ?t) kids (firstListIndex ?t attrs)
              ?f0 False s' = ((fragment', hasContent'), st2')"
        by (metis prod.exhaust)
      from "2.IH" [OF refl False refl refl refl refl refl refl refl refl refl] e e'
      have same: "fragment' = fragment" "hasContent' = hasContent"
        by (metis fst_conv prod.inject)+
      show "fst (processNode2 cfg plain ctx (Element tn attrs kids) st)
          = fst (processNode2 cfg plain ctx (Element tn attrs kids) s')"
        by (simp only: processNode2_kept [OF False e] processNode2_kept [OF False e'] same
            Let_def if_distrib [of fst] fst_conv)
    qed
  qed
next
  case (3 cfg plain ctx st)
  then show ?case by simp
next
  case (4 cfg plain tagName base idx fragment hasContent st)
  then show ?case by simp
next
  case (5 cfg plain tagName base child rest idx fragment hasContent st)
  define indexed where "indexed = (tagName = ''ol'' \<and> toLowerCase (nodeName child) = ''li'')"
  define childContext where
    "childContext = (if indexed then base\<lparr>listIndex := Some idx\<rparr> else base)"
  define idx' where "idx' = (if indexed then idx + 1 else idx)"
  show ?case
  proof
    fix s'
    obtain processed st' where
      p: "processNode2 cfg plain childContext child st = (processed, st')"
      by (cases "processNode2 cfg plain childContext child st")
    obtain processed2 st2 where
      q: "processNode2 cfg plain childContext child s' = (processed2, st2)"
      by (cases "processNode2 cfg plain childContext child s'")
    from "5.IH"(1) [OF indexed_def childContext_def] p q have same: "processed2 = processed"
      by (metis fst_conv)
    show "fst (processEach2 cfg plain tagName base (child # rest) idx fragment hasContent st)
        = fst (processEach2 cfg plain tagName base (child # rest) idx fragment hasContent s')"
    proof (cases processed)
      case Null
      from "5.IH"(2) [OF indexed_def childContext_def idx'_def p [symmetric] Null] p q same Null
      show ?thesis
        by (simp add: Let_def indexed_def childContext_def idx'_def)
    next
      case (Node x)
      from "5.IH"(3) [OF indexed_def childContext_def idx'_def p [symmetric] Node refl]
        p q same Node
      show ?thesis
        by (simp add: Let_def indexed_def childContext_def idx'_def)
    next
      case (Fragment xs)
      from "5.IH"(4) [OF indexed_def childContext_def idx'_def p [symmetric] Fragment refl]
        p q same Fragment
      show ?thesis
        by (simp add: Let_def indexed_def childContext_def idx'_def)
    qed
  qed
qed

lemma processNode2_rewritten2: "fst (processNode2 cfg plain ctx n st) = rewritten2 cfg plain ctx n"
  unfolding rewritten2_def using processNode2_pure_all by blast

lemma processEach2_fragment:
  "fst (fst (processEach2 cfg plain tagName base ns idx fragment hasContent st))
     = fragment @ concat (map (\<lambda>(c, n). nodesOf (rewritten2 cfg plain c n))
                            (zip (childContexts tagName base ns idx) ns))"
proof (induction ns arbitrary: idx fragment hasContent st)
  case Nil
  then show ?case by simp
next
  case (Cons child rest)
  define indexed where "indexed = (tagName = ''ol'' \<and> toLowerCase (nodeName child) = ''li'')"
  define childContext where
    "childContext = (if indexed then base\<lparr>listIndex := Some idx\<rparr> else base)"
  define idx' where "idx' = (if indexed then idx + 1 else idx)"
  obtain processed st' where
    p: "processNode2 cfg plain childContext child st = (processed, st')"
    by (cases "processNode2 cfg plain childContext child st")
  have r: "rewritten2 cfg plain childContext child = processed"
    using p processNode2_rewritten2 [of cfg plain childContext child st] by simp
  have c: "childContexts tagName base (child # rest) idx
      = childContext # childContexts tagName base rest idx'"
    by (simp add: indexed_def childContext_def idx'_def isListItem_def)
  show ?case
    using p r Cons.IH [of idx']
    by (cases processed)
      (simp_all del: childContexts.simps
        add: c Let_def indexed_def [symmetric] childContext_def [symmetric]
          idx'_def [symmetric] appendChild_nodesOf)
qed

lemma childContexts_length: "length (childContexts tagName base ns idx) = length ns"
  by (induction ns arbitrary: idx) auto

lemma childContexts_nth:
  "k < length ns \<Longrightarrow>
     childContexts tagName base ns idx ! k
       = (if tagName = ''ol'' \<and> isListItem (ns ! k)
          then base\<lparr>listIndex := Some (idx + int (length (filter isListItem (take k ns))))\<rparr>
          else base)"
proof (induction ns arbitrary: idx k)
  case Nil
  then show ?case by simp
next
  case (Cons child rest)
  show ?case
  proof (cases k)
    case 0
    then show ?thesis by simp
  next
    case (Suc j)
    with Cons.prems have j: "j < length rest" by simp
    have step: "childContexts tagName base (child # rest) idx ! k
        = childContexts tagName base rest
            (if tagName = ''ol'' \<and> isListItem child then idx + 1 else idx) ! j"
      using Suc by simp
    have cnt: "int (length (filter isListItem (take k (child # rest))))
        = (if isListItem child then 1 else 0) + int (length (filter isListItem (take j rest)))"
      using Suc by simp
    have nth: "(child # rest) ! k = rest ! j"
      using Suc by simp
    show ?thesis
      unfolding step nth cnt Cons.IH [OF j] by auto
  qed
qed

lemma second_engine_break_content:
  assumes "targetTagFor ctx (toLowerCase tn) = Some ''br''"
  shows "fst (processNode2 cfg plain ctx (Element tn attrs kids) st)
     = Fragment (OElement ''br'' [] [] # nodesOf (wrappedContent2 cfg plain ctx tn attrs kids st))"
proof -
  let ?t = "toLowerCase tn"
  let ?f0 = "if prefixFor ctx ?t \<noteq> [] then [OText (prefixFor ctx ?t)] else []"
  have kept: "?t \<notin> set IGNORE_TAGS"
    using assms ignored_has_no_target [of ?t ctx] by auto
  obtain fragment hasContent st2 where
    e: "processEach2 cfg plain ?t (childBaseContext ctx ?t) kids (firstListIndex ?t attrs) ?f0
          False st = ((fragment, hasContent), st2)"
    by (metis prod.exhaust)
  then have f: "childFragment2 cfg plain ctx tn attrs kids st = fragment"
    by (simp add: childFragment2_def)
  show ?thesis
    by (simp only: processNode2_kept [OF kept e] Let_def wrappedContent2_def f styleOf_def assms)
      (simp add: blockWrapper2_def createElement_def appendChild_nodesOf)
qed

lemma list_item_is_break: "targetTagFor ctx ''li'' = Some ''br''"
  by (simp add: targetTagFor_def BASE_TAG_MAP2_def Let_def)

lemma childFragment2_contexts:
  "childFragment2 cfg plain ctx tn attrs kids st
     = (if prefixFor ctx (toLowerCase tn) \<noteq> [] then [OText (prefixFor ctx (toLowerCase tn))]
        else [])
       @ concat (map (\<lambda>(c, n). nodesOf (rewritten2 cfg plain c n))
           (zip (childContexts (toLowerCase tn) (childBaseContext ctx (toLowerCase tn)) kids
                   (firstListIndex (toLowerCase tn) attrs)) kids))"
  unfolding childFragment2_def by (rule processEach2_fragment)

lemma prefixFor_list_item_not_empty: "prefixFor ctx ''li'' \<noteq> []"
  by (simp add: prefixFor_def U_def)

lemma ordered_child_context:
  "childBaseContext ctx ''ol''
     = \<lparr>insideListListItem = False, parentListType = Some ''ol'', listIndex = None\<rparr>"
  by (simp add: childBaseContext_def BLOCK_TAGS_def)

lemma childBaseContext_no_index: "listIndex (childBaseContext ctx t) = None"
  by (simp add: childBaseContext_def)

text \<open>
  Claim C10, as amended (second engine).  The fragment of every \<open>li\<close> element starts with a
  marker text, and the element gives a break followed by its content.  The marker is \<open>N.\<close> and
  a space when the context of the element records an ordered list and an index \<open>N\<close>, and a
  bullet and a space otherwise.  The loop over the children of an element gives an index to
  exactly the \<open>li\<close> children of an \<open>ol\<close> element: the first index is that of the \<open>start\<close>
  attribute when \<open>parseInt\<close> reads a number from it and 1 otherwise, and every further \<open>li\<close>
  child gets the next one.  Every other child, of any element, is processed without an index,
  so an \<open>li\<close> that is not a child of an \<open>ol\<close> gets the bullet, also when an \<open>ol\<close> encloses it
  further up.  Numbers are integers here; the source's doubles agree below \<open>2^53\<close>.
\<close>

theorem list_item_markers:
  "(toLowerCase tn = ''li'' \<longrightarrow>
      (\<exists>rest. childFragment2 cfg plain ctx tn attrs kids st = OText (prefixFor ctx ''li'') # rest)
      \<and> fst (processNode2 cfg plain ctx (Element tn attrs kids) st)
          = Fragment (OElement ''br'' [] []
              # nodesOf (wrappedContent2 cfg plain ctx tn attrs kids st)))
   \<and> prefixFor ctx ''li''
       = (if parentListType ctx = Some ''ol'' \<and> listIndex ctx \<noteq> None
          then numberToString (the (listIndex ctx)) @ U ''. '' else [8226, 32])
   \<and> childFragment2 cfg plain ctx tn attrs kids st
       = (if prefixFor ctx (toLowerCase tn) \<noteq> [] then [OText (prefixFor ctx (toLowerCase tn))]
          else [])
         @ concat (map (\<lambda>(c, n). nodesOf (rewritten2 cfg plain c n))
             (zip (childContexts (toLowerCase tn) (childBaseContext ctx (toLowerCase tn)) kids
                     (firstListIndex (toLowerCase tn) attrs)) kids))
   \<and> (k < length kids \<and> toLowerCase tn = ''ol'' \<and> isListItem (kids ! k) \<longrightarrow>
        childContexts (toLowerCase tn) (childBaseContext ctx (toLowerCase tn)) kids
            (firstListIndex (toLowerCase tn) attrs) ! k
          = \<lparr>insideListListItem = False, parentListType = Some ''ol'',
             listIndex = Some (firstListIndex ''ol'' attrs
                                + int (length (filter isListItem (take k kids))))\<rparr>
        \<and> prefixFor (childContexts (toLowerCase tn) (childBaseContext ctx (toLowerCase tn)) kids
                        (firstListIndex (toLowerCase tn) attrs) ! k) ''li''
          = numberToString (firstListIndex ''ol'' attrs
                              + int (length (filter isListItem (take k kids)))) @ U ''. '')
   \<and> (k < length kids \<and> \<not> (toLowerCase tn = ''ol'' \<and> isListItem (kids ! k)) \<longrightarrow>
        listIndex (childContexts (toLowerCase tn) (childBaseContext ctx (toLowerCase tn)) kids
                     (firstListIndex (toLowerCase tn) attrs) ! k) = None
        \<and> prefixFor (childContexts (toLowerCase tn) (childBaseContext ctx (toLowerCase tn)) kids
                        (firstListIndex (toLowerCase tn) attrs) ! k) ''li'' = [8226, 32])
   \<and> firstListIndex ''ol'' attrs
       = (case getAttribute attrs ''start'' of
            None \<Rightarrow> 1
          | Some startAttr \<Rightarrow> (case parseInt startAttr of None \<Rightarrow> 1 | Some parsed \<Rightarrow> parsed))
   \<and> prefixFor topContext2 ''li'' = [8226, 32]"
proof (intro conjI impI)
  assume li: "toLowerCase tn = ''li''"
  show "\<exists>rest. childFragment2 cfg plain ctx tn attrs kids st = OText (prefixFor ctx ''li'') # rest"
    unfolding childFragment2_contexts li using prefixFor_list_item_not_empty [of ctx] by simp
  show "fst (processNode2 cfg plain ctx (Element tn attrs kids) st)
          = Fragment (OElement ''br'' [] []
              # nodesOf (wrappedContent2 cfg plain ctx tn attrs kids st))"
    using second_engine_break_content [of ctx tn] list_item_is_break [of ctx] li by simp
next
  show "prefixFor ctx ''li''
       = (if parentListType ctx = Some ''ol'' \<and> listIndex ctx \<noteq> None
          then numberToString (the (listIndex ctx)) @ U ''. '' else [8226, 32])"
    by (simp add: prefixFor_def)
next
  show "childFragment2 cfg plain ctx tn attrs kids st
       = (if prefixFor ctx (toLowerCase tn) \<noteq> [] then [OText (prefixFor ctx (toLowerCase tn))]
          else [])
         @ concat (map (\<lambda>(c, n). nodesOf (rewritten2 cfg plain c n))
             (zip (childContexts (toLowerCase tn) (childBaseContext ctx (toLowerCase tn)) kids
                     (firstListIndex (toLowerCase tn) attrs)) kids))"
    by (rule childFragment2_contexts)
next
  assume a: "k < length kids \<and> toLowerCase tn = ''ol'' \<and> isListItem (kids ! k)"
  then have c: "childContexts (toLowerCase tn) (childBaseContext ctx (toLowerCase tn)) kids
            (firstListIndex (toLowerCase tn) attrs) ! k
          = \<lparr>insideListListItem = False, parentListType = Some ''ol'',
             listIndex = Some (firstListIndex ''ol'' attrs
                                + int (length (filter isListItem (take k kids))))\<rparr>"
    by (simp add: childContexts_nth ordered_child_context)
  then show "childContexts (toLowerCase tn) (childBaseContext ctx (toLowerCase tn)) kids
            (firstListIndex (toLowerCase tn) attrs) ! k
          = \<lparr>insideListListItem = False, parentListType = Some ''ol'',
             listIndex = Some (firstListIndex ''ol'' attrs
                                + int (length (filter isListItem (take k kids))))\<rparr>" .
  show "prefixFor (childContexts (toLowerCase tn) (childBaseContext ctx (toLowerCase tn)) kids
                        (firstListIndex (toLowerCase tn) attrs) ! k) ''li''
          = numberToString (firstListIndex ''ol'' attrs
                              + int (length (filter isListItem (take k kids)))) @ U ''. ''"
    unfolding c by (simp add: prefixFor_def)
next
  assume a: "k < length kids \<and> \<not> (toLowerCase tn = ''ol'' \<and> isListItem (kids ! k))"
  then have c: "childContexts (toLowerCase tn) (childBaseContext ctx (toLowerCase tn)) kids
            (firstListIndex (toLowerCase tn) attrs) ! k = childBaseContext ctx (toLowerCase tn)"
    using childContexts_nth [of k kids "toLowerCase tn" "childBaseContext ctx (toLowerCase tn)"
        "firstListIndex (toLowerCase tn) attrs"]
    by auto
  show "listIndex (childContexts (toLowerCase tn) (childBaseContext ctx (toLowerCase tn)) kids
                     (firstListIndex (toLowerCase tn) attrs) ! k) = None"
    unfolding c by (rule childBaseContext_no_index)
  show "prefixFor (childContexts (toLowerCase tn) (childBaseContext ctx (toLowerCase tn)) kids
                        (firstListIndex (toLowerCase tn) attrs) ! k) ''li'' = [8226, 32]"
    unfolding c by (simp add: prefixFor_def childBaseContext_no_index)
next
  have "parseInt [] = None"
    by (simp add: parseInt_def Let_def)
  then show "firstListIndex ''ol'' attrs
       = (case getAttribute attrs ''start'' of
            None \<Rightarrow> 1
          | Some startAttr \<Rightarrow> (case parseInt startAttr of None \<Rightarrow> 1 | Some parsed \<Rightarrow> parsed))"
    by (auto simp: firstListIndex_def split: option.splits)
next
  show "prefixFor topContext2 ''li'' = [8226, 32]"
    by (simp add: prefixFor_def topContext2_def)
qed

lemma parseInt_three: "parseInt (U ''3'') = Some 3"
  by (simp add: parseInt_def Let_def digitsValue_def string_rules)

theorem list_item_markers_witness:
  "toLowerCase ''LI'' = ''li''
   \<and> fst (processNode2 \<lparr>useParagraphs = True, aggressiveWhitespace = False\<rparr> False
        \<lparr>insideListListItem = False, parentListType = Some ''ol'', listIndex = Some 4\<rparr>
        (Element ''LI'' [] [Text (U ''y'')]) \<lparr>tagsRemoved = 0, attributesRemoved = 0\<rparr>)
      = Fragment [OElement ''br'' [] [], OText (U ''4. ''), OText (U ''y'')]
   \<and> (1 :: nat) < length [Element ''LI'' [] [Text (U ''x'')], Element ''LI'' [] [Text (U ''y'')]]
   \<and> toLowerCase ''OL'' = ''ol''
   \<and> isListItem ([Element ''LI'' [] [Text (U ''x'')], Element ''LI'' [] [Text (U ''y'')]] ! 1)
   \<and> prefixFor
        (childContexts (toLowerCase ''OL'') (childBaseContext topContext2 (toLowerCase ''OL''))
           [Element ''LI'' [] [Text (U ''x'')], Element ''LI'' [] [Text (U ''y'')]]
           (firstListIndex (toLowerCase ''OL'') [(''start'', U ''3'')]) ! 1) ''li''
      = U ''4. ''
   \<and> (0 :: nat) < length [Element ''LI'' [] [Text (U ''x'')]]
   \<and> \<not> (toLowerCase ''UL'' = ''ol'' \<and> isListItem ([Element ''LI'' [] [Text (U ''x'')]] ! 0))
   \<and> prefixFor
        (childContexts (toLowerCase ''UL'') (childBaseContext topContext2 (toLowerCase ''UL''))
           [Element ''LI'' [] [Text (U ''x'')]]
           (firstListIndex (toLowerCase ''UL'') []) ! 0) ''li''
      = [8226, 32]"
proof -
  let ?cfg = "\<lparr>useParagraphs = True, aggressiveWhitespace = False\<rparr>"
  let ?st = "\<lparr>tagsRemoved = 0, attributesRemoved = 0\<rparr>"
  let ?c4 = "\<lparr>insideListListItem = False, parentListType = Some ''ol'', listIndex = Some 4\<rparr>"
  let ?two = "[Element ''LI'' [] [Text (U ''x'')], Element ''LI'' [] [Text (U ''y'')]]"
  have n: "toLowerCase ''LI'' = ''li''" "toLowerCase ''OL'' = ''ol''" "toLowerCase ''UL'' = ''ul''"
    by (simp_all add: toLowerCase_def toLowerChar_def)
  have i: "isListItem (?two ! 1)" "isListItem ([Element ''LI'' [] [Text (U ''x'')]] ! 0)"
    by (simp_all add: isListItem_def n)
  have w: "nodesOf (wrappedContent2 ?cfg False ?c4 ''LI'' [] [Text (U ''y'')] ?st)
      = [OText (U ''4. ''), OText (U ''y'')]"
    by (simp del: let_rules
        add: wrappedContent2_def childFragment2_def styleOf_def numberToString_def
          digitsOf_small walker_rules string_rules)
  have f: "firstListIndex ''ol'' [(''start'', U ''3'')] = 3"
    using parseInt_three by (simp add: firstListIndex_def getAttribute_def U_def)
  have four: "numberToString (3 + int (length (filter isListItem (take 1 ?two)))) @ U ''. ''
      = U ''4. ''"
    by (simp add: isListItem_def n numberToString_def digitsOf_small U_def)
  have h1: "toLowerCase ''LI'' = ''li''"
    by (rule n(1))
  have h2: "(1 :: nat) < length ?two \<and> toLowerCase ''OL'' = ''ol'' \<and> isListItem (?two ! 1)"
    using n(2) i(1) by simp
  have h3: "(0 :: nat) < length [Element ''LI'' [] [Text (U ''x'')]]
      \<and> \<not> (toLowerCase ''UL'' = ''ol'' \<and> isListItem ([Element ''LI'' [] [Text (U ''x'')]] ! 0))"
    using n(3) by simp
  note a = list_item_markers [where tn = "''LI''" and cfg = ?cfg and plain = False and ctx = ?c4
      and attrs = "[]" and kids = "[Text (U ''y'')]" and st = ?st,
      THEN conjunct1, THEN mp, OF h1, THEN conjunct2]
  note b = list_item_markers [where tn = "''OL''" and ctx = topContext2
      and attrs = "[(''start'', U ''3'')]" and kids = ?two and k = 1,
      THEN conjunct2, THEN conjunct2, THEN conjunct2, THEN conjunct1, THEN mp, OF h2,
      THEN conjunct2]
  note c = list_item_markers [where tn = "''UL''" and ctx = topContext2 and attrs = "[]"
      and kids = "[Element ''LI'' [] [Text (U ''x'')]]" and k = 0,
      THEN conjunct2, THEN conjunct2, THEN conjunct2, THEN conjunct2, THEN conjunct1, THEN mp,
      OF h3, THEN conjunct2]
  have one: "fst (processNode2 ?cfg False ?c4 (Element ''LI'' [] [Text (U ''y'')]) ?st)
      = Fragment [OElement ''br'' [] [], OText (U ''4. ''), OText (U ''y'')]"
    unfolding a w by simp
  have two: "prefixFor
        (childContexts (toLowerCase ''OL'') (childBaseContext topContext2 (toLowerCase ''OL''))
           ?two (firstListIndex (toLowerCase ''OL'') [(''start'', U ''3'')]) ! 1) ''li''
      = U ''4. ''"
    unfolding b f four by (rule refl)
  show ?thesis
    using h1 h2 h3 one two c by blast
qed

text \<open>An \<open>li\<close> inside a \<open>div\<close> inside an \<open>ol\<close>: the enclosing list is ordered, and the marker is
  the bullet.\<close>

theorem list_item_below_ordered_list_gets_bullet:
  "error (cleanHtml2 exampleParse (U ''<ol><div><li>x</li></div></ol>'')
            \<lparr>useParagraphs = True, aggressiveWhitespace = False\<rparr>) = None
   \<and> html (cleanHtml2 exampleParse (U ''<ol><div><li>x</li></div></ol>'')
            \<lparr>useParagraphs = True, aggressiveWhitespace = False\<rparr>)
       = [60, 112, 62, 8226, 32] @ U ''x</p>''
   \<and> html (cleanHtml2 exampleParse (U ''<ol><div><li>x</li></div></ol>'')
            \<lparr>useParagraphs = True, aggressiveWhitespace = False\<rparr>) \<noteq> U ''<p>1. x</p>''
   \<and> rewritten2 \<lparr>useParagraphs = True, aggressiveWhitespace = False\<rparr> False
        \<lparr>insideListListItem = False, parentListType = Some ''ol'', listIndex = None\<rparr>
        (Element ''LI'' [] [Text (U ''x'')])
       = Fragment [OElement ''br'' [] [], OText [8226, 32], OText (U ''x'')]"
proof -
  let ?cfg = "\<lparr>useParagraphs = True, aggressiveWhitespace = False\<rparr>"
  let ?raw = "U ''<ol><div><li>x</li></div></ol>''"
  let ?body = "[Element ''OL'' [] [Element ''DIV'' [] [Element ''LI'' [] [Text (U ''x'')]]]]"
  let ?doc = "\<lparr>docHead = [], docBody = ?body\<rparr>"
  let ?out = "[OElement ''p'' [] [OElement ''p'' []
      [OElement ''br'' [] [], OText [8226, 32], OText (U ''x'')]]]"
  have p: "exampleParse ?raw = Inr ?doc"
    by (simp add: exampleParse_def U_def)
  have q: "\<not> querySelector ?doc ''parsererror''"
    by (simp add: querySelector_def toLowerCase_def toLowerChar_def)
  have plain: "\<not> treatAsPlainText ?body"
    by (simp add: treatAsPlainText_def walker_rules)
  have w: "processBody2 ?cfg (treatAsPlainText (docBody ?doc)) (docBody ?doc) []
       \<lparr>tagsRemoved = 0, attributesRemoved = 0\<rparr> = (?out, \<lparr>tagsRemoved = 0, attributesRemoved = 0\<rparr>)"
    by (simp del: let_rules add: plain walker_rules string_rules)
  have i: "innerHTML ?out = U ''<p><p><br>'' @ [8226, 32] @ U ''x</p></p>''"
    by (simp add: output_rules string_rules)
  have c: "regexCleanup ?cfg False (innerHTML ?out) = [60, 112, 62, 8226, 32] @ U ''x</p>''"
    unfolding i by (simp add: pattern_rules string_rules)
  have r: "cleanHtml2 exampleParse ?raw ?cfg
     = \<lparr>html = [60, 112, 62, 8226, 32] @ U ''x</p>'',
        stats = \<lparr>tagsRemoved = 0, attributesRemoved = 0, originalLength = length ?raw,
                 finalLength = length ([60, 112, 62, 8226, 32] @ U ''x</p>'')\<rparr>,
        error = None\<rparr>"
    unfolding cleanHtml2_document [of exampleParse ?raw ?doc ?cfg ?out
        "\<lparr>tagsRemoved = 0, attributesRemoved = 0\<rparr>", OF p q w]
    using plain c by simp
  have l: "rewritten2 ?cfg False
        \<lparr>insideListListItem = False, parentListType = Some ''ol'', listIndex = None\<rparr>
        (Element ''LI'' [] [Text (U ''x'')])
       = Fragment [OElement ''br'' [] [], OText [8226, 32], OText (U ''x'')]"
    by (simp del: let_rules add: rewritten2_def walker_rules string_rules)
  show ?thesis
    by (simp only: r l conversion.simps) (simp add: U_def)
qed

end
